theory Spec2Isabelle
  imports Main "HOL-Library.Word"
begin

section \<open>FileSystemAccess: character predicates and name escaping\<close>

text \<open>
  A \<^verbatim>\<open>std::string\<close> is a sequence of bytes, modelled as a \<^typ>\<open>string\<close>;
  \<^term>\<open>of_char c :: nat\<close> is the value of the byte as an \<^verbatim>\<open>unsigned char\<close>.
  A \<^verbatim>\<open>LocalPath\<close> wraps one such string (its field \<^verbatim>\<open>localpath\<close>).
\<close>

type_synonym LocalPath = string

text \<open>\<^verbatim>\<open>islchex\<close>: \<^verbatim>\<open>(c >= '0' && c <= '9') || (c >= 'a' && c <= 'f')\<close>.\<close>

definition islchex :: "char \<Rightarrow> bool" where
  "islchex c \<longleftrightarrow>
     ((of_char CHR ''0'' :: nat) \<le> of_char c \<and> (of_char c :: nat) \<le> of_char CHR ''9'')
   \<or> ((of_char CHR ''a'' :: nat) \<le> of_char c \<and> (of_char c :: nat) \<le> of_char CHR ''f'')"

text \<open>The string literal searched by \<^verbatim>\<open>strchr\<close> in \<^verbatim>\<open>islocalfscompatible\<close>:
  backslash, slash, colon, question mark, double quote, angle brackets, bar, star.\<close>

definition badchars :: string where
  "badchars = [CHR 0x5C, CHR ''/'', CHR '':'', CHR ''?'', CHR 0x22, CHR ''<'', CHR ''>'',
               CHR ''|'', CHR ''*'']"

definition islocalfscompatible :: "char \<Rightarrow> bool" where
  "islocalfscompatible c \<longleftrightarrow> (of_char c :: nat) \<ge> of_char CHR '' '' \<and> c \<notin> set badchars"

text \<open>\<^verbatim>\<open>std::string::replace(pos, len, str)\<close>; every call below has \<open>pos\<close> within the string.\<close>

definition replace :: "nat \<Rightarrow> nat \<Rightarrow> string \<Rightarrow> string \<Rightarrow> string" where
  "replace pos len str s = take pos s @ str @ drop (pos + len) s"

text \<open>\<^verbatim>\<open>sprintf(buf, "%%%02x", c)\<close> with \<open>c\<close> an \<^verbatim>\<open>unsigned char\<close>: a percent sign and
  two lower-case hexadecimal digits.\<close>

definition hexdigit :: "nat \<Rightarrow> char" where
  "hexdigit d = ''0123456789abcdef'' ! d"

definition sprintf_pct02x :: "char \<Rightarrow> string" where
  "sprintf_pct02x c = [CHR ''%'', hexdigit (of_char c div 16), hexdigit (of_char c mod 16)]"

text \<open>The loop \<^verbatim>\<open>for (size_t i = name->size(); i--; )\<close> of \<^verbatim>\<open>escapefsincompatible\<close>:
  \<open>escape_loop k name\<close> runs the body for \<open>i = k - 1\<close> down to \<open>0\<close>.\<close>

fun escape_loop :: "nat \<Rightarrow> string \<Rightarrow> string" where
  "escape_loop 0 name = name"
| "escape_loop (Suc i) name =
     escape_loop i (if \<not> islocalfscompatible (name ! i)
                    then replace i 1 (sprintf_pct02x (name ! i)) name
                    else name)"

definition escapefsincompatible :: "string \<Rightarrow> string" where
  "escapefsincompatible name =
     (if name = ''..'' then replace 0 2 ''%2e%2e'' name
      else if name = ''.'' then replace 0 1 ''%2e'' name
      else escape_loop (length name) name)"

text \<open>
  Modelled from the spec: \<^verbatim>\<open>MegaClient::hexval\<close> is defined outside the files at hand; it is
  the value of a lower-case hexadecimal digit, the inverse of the "3-character
  lowercase-hex escape" digits. It is only called on characters accepted by \<^const>\<open>islchex\<close>.
\<close>

definition hexval :: "char \<Rightarrow> nat" where
  "hexval c = (if of_char c > (of_char CHR ''9'' :: nat)
               then of_char c - of_char CHR ''a'' + 10
               else of_char c - of_char CHR ''0'')"

text \<open>\<^verbatim>\<open>(*name)[i]\<close>: \<^verbatim>\<open>operator[]\<close> at \<open>i = size()\<close> yields the terminating NUL. The
  unescape loop never reads beyond that position.\<close>

definition char_at :: "string \<Rightarrow> nat \<Rightarrow> char" where
  "char_at s i = (if i < length s then s ! i else CHR 0x00)"

text \<open>The loop \<^verbatim>\<open>for (int i = int(name->size()) - 2; i-- > 0; )\<close> of
  \<^verbatim>\<open>unescapefsincompatible\<close>: the body runs for \<open>i = size - 3\<close> down to \<open>0\<close>, so
  \<open>unescape_loop k name\<close> is entered with \<open>k = size - 2\<close> (no iteration when \<open>size \<le> 2\<close>;
  the size of a name is taken to fit the \<^verbatim>\<open>int\<close> it is converted to).
  The decoded byte is \<^verbatim>\<open>(hexval(..) << 4) + hexval(..)\<close> cast to \<^verbatim>\<open>char\<close>.\<close>

fun unescape_loop :: "nat \<Rightarrow> string \<Rightarrow> string" where
  "unescape_loop 0 name = name"
| "unescape_loop (Suc i) name =
     unescape_loop i
       (if char_at name i = CHR ''%'' \<and> islchex (char_at name (i + 1)) \<and> islchex (char_at name (i + 2))
        then (let c = char_of (push_bit 4 (hexval (char_at name (i + 1))) + hexval (char_at name (i + 2)))
              in if \<not> islocalfscompatible c then replace i 3 [c] name else name)
        else name)"

definition unescapefsincompatible :: "string \<Rightarrow> string" where
  "unescapefsincompatible name =
     (if name = ''%2e%2e'' then replace 0 6 ''..'' name
      else if name = ''%2e'' then replace 0 3 ''.'' name
      else unescape_loop (length name - 2) name)"

text \<open>\<^verbatim>\<open>path2local\<close> and \<^verbatim>\<open>local2path\<close> are the platform's encoding conversions (pure
  virtual in the base class); they are parameters of the model.\<close>

definition name2local :: "(string \<Rightarrow> string) \<Rightarrow> string \<Rightarrow> string" where
  "name2local path2local filename = path2local (escapefsincompatible filename)"

definition local2name :: "(string \<Rightarrow> string) \<Rightarrow> string \<Rightarrow> string" where
  "local2name local2path filename = unescapefsincompatible (local2path filename)"

subsection \<open>Auxiliary notions for the escaping proofs\<close>

text \<open>The escape of a single byte, and the effect of one iteration of the unescape loop
  seen as a right-to-left fold: \<open>ustep c r\<close> is the string obtained from byte \<open>c\<close> placed
  before the already processed remainder \<open>r\<close>.\<close>

definition escchar :: "char \<Rightarrow> string" where
  "escchar c = (if islocalfscompatible c then [c] else sprintf_pct02x c)"

definition decode :: "char \<Rightarrow> char \<Rightarrow> char" where
  "decode a b = char_of (push_bit 4 (hexval a) + hexval b)"

text \<open>\<open>triplet c r\<close>: byte \<open>c\<close> followed by \<open>r\<close> starts with an escape sequence that
  \<^verbatim>\<open>unescapefsincompatible\<close> decodes: a percent sign, two lower-case hex digits, and a decoded
  byte that is not allowed in local names.\<close>

definition triplet :: "char \<Rightarrow> string \<Rightarrow> bool" where
  "triplet c r \<longleftrightarrow> c = CHR ''%'' \<and> islchex (char_at r 0) \<and> islchex (char_at r 1)
      \<and> \<not> islocalfscompatible (decode (char_at r 0) (char_at r 1))"

definition ustep :: "char \<Rightarrow> string \<Rightarrow> string" where
  "ustep c r = (if triplet c r then decode (char_at r 0) (char_at r 1) # drop 2 r else c # r)"

text \<open>A presentation name in which no position starts a decodable escape sequence.\<close>

fun no_escape_triplet :: "string \<Rightarrow> bool" where
  "no_escape_triplet [] = True"
| "no_escape_triplet (c # r) = (\<not> triplet c r \<and> no_escape_triplet r)"

section \<open>FileSystemAccess::normalize\<close>

text \<open>
  \<^verbatim>\<open>utf8proc_NFC\<close> is an external function on C strings: it reads its argument up to the
  first NUL and returns either a null pointer (\<^term>\<open>None\<close>) or a freshly allocated C
  string, which \<^verbatim>\<open>result.append(normalized)\<close> copies up to its terminator. A C string is
  represented by the bytes before its terminator, so the function is a parameter of type
  \<^typ>\<open>string \<Rightarrow> string option\<close>.

  The loop \<^verbatim>\<open>for (size_t i = 0; i < fnsize; )\<close>: a NUL byte is copied and skipped; otherwise
  the run starting at \<open>i\<close> is normalised, and \<open>i\<close> advances by \<^verbatim>\<open>strlen(substring)\<close>. On
  failure the file name is cleared and the function returns at once. (The function is
  a no-op on a null \<^verbatim>\<open>filename\<close> pointer; the model takes the string itself.)
\<close>

function normalize_loop :: "(string \<Rightarrow> string option) \<Rightarrow> string \<Rightarrow> nat \<Rightarrow> string \<Rightarrow> string" where
  "normalize_loop utf8proc_NFC filename i result =
     (if i < length filename then
        (if filename ! i = CHR 0x00
         then normalize_loop utf8proc_NFC filename (i + 1) (result @ [CHR 0x00])
         else (let substring = takeWhile (\<lambda>b. b \<noteq> CHR 0x00) (drop i filename) in
               case utf8proc_NFC substring of
                 None \<Rightarrow> []
               | Some normalized \<Rightarrow>
                   normalize_loop utf8proc_NFC filename (i + length substring) (result @ normalized)))
      else result)"
  by pat_completeness auto
termination
proof (relation "measure (\<lambda>(nfc, filename, i, result). length filename - i)")
  show "wf (measure (\<lambda>(nfc, filename, i, result). length filename - i))" by simp
next
  fix utf8proc_NFC :: "string \<Rightarrow> string option" and filename :: string and i :: nat and result :: string
  assume "i < length filename"
  then show "((utf8proc_NFC, filename, i + 1, result @ [CHR 0x00]), (utf8proc_NFC, filename, i, result))
      \<in> measure (\<lambda>(nfc, filename, i, result). length filename - i)"
    by simp
next
  fix utf8proc_NFC :: "string \<Rightarrow> string option" and filename :: string and i :: nat
    and result substring normalized :: string
  assume lt: "i < length filename" and nz: "filename ! i \<noteq> CHR 0x00"
    and sub: "substring = takeWhile (\<lambda>b. b \<noteq> CHR 0x00) (drop i filename)"
  from lt have "drop i filename = filename ! i # drop (Suc i) filename"
    by (simp add: Cons_nth_drop_Suc)
  with nz sub have "0 < length substring" by simp
  with lt have "length filename - (i + length substring) < length filename - i" by arith
  then show "((utf8proc_NFC, filename, i + length substring, result @ normalized),
      (utf8proc_NFC, filename, i, result)) \<in> measure (\<lambda>(nfc, filename, i, result). length filename - i)"
    by simp
qed

definition normalize :: "(string \<Rightarrow> string option) \<Rightarrow> string \<Rightarrow> string" where
  "normalize utf8proc_NFC filename = normalize_loop utf8proc_NFC filename 0 []"

subsection \<open>The specification's wording of normalize\<close>

text \<open>Splitting at every NUL byte: \<open>n\<close> NUL bytes give \<open>n + 1\<close> runs, some possibly empty.\<close>

fun split_nul :: "string \<Rightarrow> string list" where
  "split_nul [] = [[]]"
| "split_nul (c # cs) =
     (if c = CHR 0x00 then [] # split_nul cs
      else (case split_nul cs of [] \<Rightarrow> [[c]] | r # rs \<Rightarrow> (c # r) # rs))"

text \<open>Reassembling the runs with one NUL byte between neighbours.\<close>

fun join_nul :: "string list \<Rightarrow> string" where
  "join_nul [] = []"
| "join_nul [r] = r"
| "join_nul (r # rs) = r @ [CHR 0x00] @ join_nul rs"

definition nfc_fails :: "(string \<Rightarrow> string option) \<Rightarrow> string \<Rightarrow> bool" where
  "nfc_fails utf8proc_NFC r \<longleftrightarrow> r \<noteq> [] \<and> utf8proc_NFC r = None"

definition nfc_run :: "(string \<Rightarrow> string option) \<Rightarrow> string \<Rightarrow> string" where
  "nfc_run utf8proc_NFC r =
     (if r = [] then [] else case utf8proc_NFC r of None \<Rightarrow> [] | Some normalized \<Rightarrow> normalized)"

text \<open>"Split the input on embedded null bytes, apply NFC independently to each non-null
  run, and reassemble with the null separators preserved; if normalization fails on any
  run, the entire result is cleared."\<close>

definition normalize_spec :: "(string \<Rightarrow> string option) \<Rightarrow> string \<Rightarrow> string" where
  "normalize_spec utf8proc_NFC filename =
     (let runs = split_nul filename in
      if list_ex (nfc_fails utf8proc_NFC) runs then []
      else join_nul (map (nfc_run utf8proc_NFC) runs))"

section \<open>LocalPath\<close>

text \<open>
  \<^verbatim>\<open>std::string::data()\<close> points to the bytes of the string followed by one terminating
  NUL; these \<open>size() + 1\<close> bytes are all that may be read through the pointer.
\<close>

definition data :: "string \<Rightarrow> string" where
  "data s = s @ [CHR 0x00]"

text \<open>
  \<^verbatim>\<open>!memcmp(p, q, n)\<close> on two buffers given by the bytes readable from \<open>p\<close> and from
  \<open>q\<close>: equality of the first \<open>n\<close> bytes, and \<^term>\<open>None\<close> when \<open>n\<close> bytes are not
  readable from both (the read is out of bounds, the behaviour undefined).
\<close>

definition memcmp_eq :: "string \<Rightarrow> string \<Rightarrow> nat \<Rightarrow> bool option" where
  "memcmp_eq p q n = (if n \<le> length p \<and> n \<le> length q then Some (take n p = take n q) else None)"

text \<open>\<^verbatim>\<open>LocalPath::isContainingPathOf\<close>, with the short-circuit evaluation of \<^verbatim>\<open>&&\<close> and
  \<^verbatim>\<open>||\<close>; \<open>localpath\<close> is the receiver's path, \<open>localseparator\<close> the separator of the
  \<^verbatim>\<open>FileSystemAccess\<close>.\<close>

definition isContainingPathOf :: "LocalPath \<Rightarrow> LocalPath \<Rightarrow> string \<Rightarrow> bool option" where
  "isContainingPathOf localpath path localseparator =
     (if \<not> length path \<ge> length localpath then Some False
      else case memcmp_eq (data path) (data localpath) (length localpath) of
             None \<Rightarrow> None
           | Some False \<Rightarrow> Some False
           | Some True \<Rightarrow>
               if length path = length localpath then Some True
               else memcmp_eq (drop (length localpath) (data path)) (data localseparator)
                      (length localseparator))"

text \<open>\<^verbatim>\<open>LocalPath::separatorAppend\<close>.\<close>

definition separatorAppend :: "LocalPath \<Rightarrow> LocalPath \<Rightarrow> string \<Rightarrow> bool \<Rightarrow> LocalPath" where
  "separatorAppend localpath additionalPath localseparator separatorAlways =
     (if separatorAlways \<or> length localpath \<noteq> 0 then localpath @ localseparator else localpath)
     @ additionalPath"

section \<open>FileAccess\<close>

text \<open>The node types named in the source (the enumeration is declared in a header).\<close>

datatype nodetype_t = TYPE_UNKNOWN | FILENODE | FOLDERNODE

text \<open>
  The platform operations \<^verbatim>\<open>sysstat\<close>, \<^verbatim>\<open>sysopen\<close> and \<^verbatim>\<open>sysclose\<close> are pure virtual in the
  base class. The calls that take or release the system handle are recorded in the
  field \<open>syscalls\<close>, which is not a field of the class but the trace of these calls.
\<close>

datatype syscall = SYSOPEN bool | SYSCLOSE

text \<open>The fields of \<^verbatim>\<open>FileAccess\<close> used by the base class; \<open>fsize\<close> is the field \<^verbatim>\<open>size\<close>
  and \<open>ftype\<close> the field \<^verbatim>\<open>type\<close>. The counter \<^verbatim>\<open>numAsyncReads\<close> is a machine \<^verbatim>\<open>int\<close>: a 32-bit
  word, read as a signed number by \<^const>\<open>sint\<close>, whose increment and decrement wrap around.\<close>

record FileAccess =
  nonblocking_localname :: LocalPath
  mtime :: int
  fsize :: int
  retry :: bool
  ftype :: nodetype_t
  fsidvalid :: bool
  fsid :: nat
  isAsyncOpened :: bool
  numAsyncReads :: "32 word"
  syscalls :: "syscall list"

text \<open>
  The platform as seen by the base class: \<open>sysstat\<close> gives the observed modification
  time and size, or \<^term>\<open>None\<close> when it returns false; \<open>sysopen\<close> gives the result of
  \<^verbatim>\<open>sysopen(async)\<close>. Both may depend on the state of the object they are called on.
\<close>

record platform =
  sysstat :: "FileAccess \<Rightarrow> (int \<times> int) option"
  sysopen :: "bool \<Rightarrow> FileAccess \<Rightarrow> bool"

text \<open>
  Modelled from the spec: \<^verbatim>\<open>updatelocalname\<close> is a platform method defined outside the files
  at hand; \<^verbatim>\<open>fopen(path)\<close> "remembers the path for later reopen".
\<close>

definition updatelocalname :: "LocalPath \<Rightarrow> FileAccess \<Rightarrow> FileAccess" where
  "updatelocalname name fa = fa\<lparr>nonblocking_localname := name\<rparr>"

text \<open>\<^verbatim>\<open>FileAccess::fopen(LocalPath&)\<close>: \<^verbatim>\<open>resize(1)\<close> leaves a one-byte string, then the name is
  recorded and \<^verbatim>\<open>sysstat(&mtime, &size)\<close> writes the two fields on success.\<close>

definition fopen :: "platform \<Rightarrow> LocalPath \<Rightarrow> FileAccess \<Rightarrow> bool \<times> FileAccess" where
  "fopen os name fa =
     (let fa1 = updatelocalname name
                  (fa\<lparr>nonblocking_localname := take 1 (nonblocking_localname fa @ [CHR 0x00])\<rparr>)
      in case sysstat os fa1 of
           None \<Rightarrow> (False, fa1)
         | Some (m, s) \<Rightarrow> (True, fa1\<lparr>mtime := m, fsize := s\<rparr>))"

text \<open>\<^verbatim>\<open>FileAccess::openf\<close>.\<close>

definition openf :: "platform \<Rightarrow> FileAccess \<Rightarrow> bool \<times> FileAccess" where
  "openf os fa =
     (if nonblocking_localname fa = [] then (True, fa)
      else case sysstat os fa of
             None \<Rightarrow> (False, fa)
           | Some (curr_mtime, curr_size) \<Rightarrow>
               if curr_mtime \<noteq> mtime fa \<or> curr_size \<noteq> fsize fa
               then (False, fa\<lparr>mtime := curr_mtime, fsize := curr_size, retry := False\<rparr>)
               else (sysopen os False fa, fa\<lparr>syscalls := syscalls fa @ [SYSOPEN False]\<rparr>))"

text \<open>\<^verbatim>\<open>FileAccess::closef\<close>.\<close>

definition closef :: "FileAccess \<Rightarrow> FileAccess" where
  "closef fa = (if nonblocking_localname fa \<noteq> [] then fa\<lparr>syscalls := syscalls fa @ [SYSCLOSE]\<rparr> else fa)"

text \<open>\<^verbatim>\<open>FileAccess::asyncopenf\<close>: the counter is incremented first, on every path.\<close>

definition asyncopenf :: "platform \<Rightarrow> FileAccess \<Rightarrow> bool \<times> FileAccess" where
  "asyncopenf os fa0 =
     (let fa = fa0\<lparr>numAsyncReads := numAsyncReads fa0 + 1\<rparr> in
      if nonblocking_localname fa = [] then (True, fa)
      else if isAsyncOpened fa then (True, fa)
      else case sysstat os fa of
             None \<Rightarrow> (False, fa)
           | Some (curr_mtime, curr_size) \<Rightarrow>
               if curr_mtime \<noteq> mtime fa \<or> curr_size \<noteq> fsize fa
               then (False, fa\<lparr>mtime := curr_mtime, fsize := curr_size, retry := False\<rparr>)
               else (let result = sysopen os True fa;
                         fa' = fa\<lparr>syscalls := syscalls fa @ [SYSOPEN True]\<rparr>
                     in if result then (result, fa'\<lparr>isAsyncOpened := True\<rparr>) else (result, fa')))"

text \<open>\<^verbatim>\<open>FileAccess::asyncclosef\<close>.\<close>

definition asyncclosef :: "FileAccess \<Rightarrow> FileAccess" where
  "asyncclosef fa0 =
     (let fa = fa0\<lparr>numAsyncReads := numAsyncReads fa0 - 1\<rparr> in
      if isAsyncOpened fa \<and> numAsyncReads fa = 0
      then fa\<lparr>isAsyncOpened := False, syscalls := syscalls fa @ [SYSCLOSE]\<rparr>
      else fa)"

section \<open>AsyncIOContext\<close>

datatype asyncop = NONE | OPEN | READ | WRITE

datatype access_right = ACCESS_READ | ACCESS_WRITE

text \<open>The only completion callback installed by the base class is \<^verbatim>\<open>asyncopfinished\<close>, which
  notifies the waiter passed as user data.\<close>

datatype callback = asyncopfinished

text \<open>
  The context of one asynchronous operation. The buffer, the waiter and the back
  pointer \<^verbatim>\<open>fa\<close> are references; the \<^verbatim>\<open>FileAccess\<close> is passed explicitly to the functions
  that use it. The field \<open>callbacks\<close> is not a field of the class: it records every
  invocation of \<^verbatim>\<open>userCallback\<close> together with the value the completion flag had at that
  moment.
\<close>

record AsyncIOContext =
  op :: asyncop
  access :: "access_right set"
  pos :: int
  len :: nat
  pad :: nat
  userCallback :: "callback option"
  finished :: bool
  failed :: bool
  ctx_retry :: bool
  callbacks :: "bool list"

text \<open>The constructor \<^verbatim>\<open>AsyncIOContext::AsyncIOContext\<close>.\<close>

definition newasynccontext :: AsyncIOContext where
  "newasynccontext = \<lparr>op = NONE, access = {}, pos = 0, len = 0, pad = 0, userCallback = None,
     finished = False, failed = False, ctx_retry = False, callbacks = []\<rparr>"

text \<open>\<^verbatim>\<open>context->userCallback(context->userData)\<close>.\<close>

definition call_userCallback :: "AsyncIOContext \<Rightarrow> AsyncIOContext" where
  "call_userCallback context = context\<lparr>callbacks := callbacks context @ [finished context]\<rparr>"

text \<open>The base implementations \<^verbatim>\<open>asyncsysopen\<close>, \<^verbatim>\<open>asyncsysread\<close>, \<^verbatim>\<open>asyncsyswrite\<close> have the
  same body.\<close>

definition asyncsysopen :: "AsyncIOContext \<Rightarrow> AsyncIOContext" where
  "asyncsysopen context0 =
     (let context = context0\<lparr>failed := True, ctx_retry := False, finished := True\<rparr>
      in if userCallback context \<noteq> None then call_userCallback context else context)"

definition asyncsysread :: "AsyncIOContext \<Rightarrow> AsyncIOContext" where
  "asyncsysread context0 =
     (let context = context0\<lparr>failed := True, ctx_retry := False, finished := True\<rparr>
      in if userCallback context \<noteq> None then call_userCallback context else context)"

definition asyncsyswrite :: "AsyncIOContext \<Rightarrow> AsyncIOContext" where
  "asyncsyswrite context0 =
     (let context = context0\<lparr>failed := True, ctx_retry := False, finished := True\<rparr>
      in if userCallback context \<noteq> None then call_userCallback context else context)"

text \<open>\<^verbatim>\<open>FileAccess::asyncfopen(LocalPath&)\<close>: \<^verbatim>\<open>context->pos = size\<close> reads the size before the
  stat; \<^verbatim>\<open>context->failed = !sysstat(&mtime, &size)\<close>.\<close>

definition asyncfopen :: "platform \<Rightarrow> LocalPath \<Rightarrow> FileAccess \<Rightarrow> AsyncIOContext \<times> FileAccess" where
  "asyncfopen os f fa0 =
     (let fa1 = updatelocalname f
                  (fa0\<lparr>nonblocking_localname := take 1 (nonblocking_localname fa0 @ [CHR 0x00])\<rparr>);
          context = newasynccontext\<lparr>op := OPEN, access := {ACCESS_READ}, len := length f,
                      userCallback := Some asyncopfinished, pos := fsize fa1\<rparr>;
          st = sysstat os fa1;
          fa2 = (case st of None \<Rightarrow> fa1 | Some (m, s) \<Rightarrow> fa1\<lparr>mtime := m, fsize := s\<rparr>);
          context = context\<lparr>failed := (st = None)\<rparr>;
          context = context\<lparr>ctx_retry := retry fa2\<rparr>;
          context = context\<lparr>finished := True\<rparr>
      in (call_userCallback context, fa2))"

text \<open>\<^verbatim>\<open>FileAccess::asyncfopen(LocalPath&, bool read, bool write, m_off_t pos)\<close>.\<close>

definition asyncfopen_rw ::
  "LocalPath \<Rightarrow> bool \<Rightarrow> bool \<Rightarrow> int \<Rightarrow> FileAccess \<Rightarrow> AsyncIOContext \<times> FileAccess" where
  "asyncfopen_rw f read write p fa =
     (let context = newasynccontext\<lparr>op := OPEN,
                      access := (if read then {ACCESS_READ} else {}) \<union> (if write then {ACCESS_WRITE} else {}),
                      len := length f, userCallback := Some asyncopfinished, pos := p\<rparr>
      in (asyncsysopen context, fa))"

text \<open>\<^verbatim>\<open>FileAccess::asyncfread\<close>.\<close>

definition asyncfread ::
  "platform \<Rightarrow> nat \<Rightarrow> nat \<Rightarrow> int \<Rightarrow> FileAccess \<Rightarrow> AsyncIOContext \<times> FileAccess" where
  "asyncfread os l pd p fa0 =
     (let context = newasynccontext\<lparr>op := READ, pos := p, len := l, pad := pd,
                      userCallback := Some asyncopfinished\<rparr>;
          (opened, fa) = asyncopenf os fa0
      in if \<not> opened
         then (call_userCallback (context\<lparr>failed := True, ctx_retry := retry fa, finished := True\<rparr>), fa)
         else (asyncsysread context, fa))"

text \<open>\<^verbatim>\<open>FileAccess::asyncfwrite\<close>.\<close>

definition asyncfwrite :: "nat \<Rightarrow> int \<Rightarrow> FileAccess \<Rightarrow> AsyncIOContext \<times> FileAccess" where
  "asyncfwrite l p fa =
     (let context = newasynccontext\<lparr>op := WRITE, pos := p, len := l,
                      userCallback := Some asyncopfinished\<rparr>
      in (asyncsyswrite context, fa))"

text \<open>
  \<^verbatim>\<open>AsyncIOContext::finish\<close>: while the completion flag is clear, wait on the waiter. What
  the platform's completion does to the context during one \<^verbatim>\<open>waiter->wait()\<close> is the
  parameter \<open>wait\<close>. The loop need not end: the result is \<^term>\<open>None\<close> when it does not.
\<close>

partial_function (option) finish_loop ::
  "(AsyncIOContext \<Rightarrow> AsyncIOContext) \<Rightarrow> AsyncIOContext \<Rightarrow> AsyncIOContext option" where
  "finish_loop wait context =
     (if \<not> finished context then finish_loop wait (wait context) else Some context)"

definition finish :: "(AsyncIOContext \<Rightarrow> AsyncIOContext) \<Rightarrow> AsyncIOContext \<Rightarrow> AsyncIOContext option" where
  "finish wait context = (if \<not> finished context then finish_loop wait context else Some context)"

text \<open>The destructor \<^verbatim>\<open>AsyncIOContext::~AsyncIOContext\<close>, acting on the issuing \<^verbatim>\<open>FileAccess\<close>.\<close>

definition AsyncIOContext_destructor ::
  "(AsyncIOContext \<Rightarrow> AsyncIOContext) \<Rightarrow> AsyncIOContext \<Rightarrow> FileAccess \<Rightarrow> FileAccess option" where
  "AsyncIOContext_destructor wait context fa =
     (case finish wait context of
        None \<Rightarrow> None
      | Some context' \<Rightarrow> Some (if op context' = READ then asyncclosef fa else fa))"

subsection \<open>Sequences of asynchronous opens and closes\<close>

text \<open>A call of \<^const>\<open>asyncopenf\<close>, made while the platform is in some state, or a call of
  \<^const>\<open>asyncclosef\<close>; \<open>run_calls\<close> performs a sequence of such calls on a \<^verbatim>\<open>FileAccess\<close>.\<close>

datatype async_call = ASYNCOPENF platform | ASYNCCLOSEF

fun run_calls :: "async_call list \<Rightarrow> FileAccess \<Rightarrow> FileAccess" where
  "run_calls [] fa = fa"
| "run_calls (ASYNCOPENF os # cs) fa = run_calls cs (snd (asyncopenf os fa))"
| "run_calls (ASYNCCLOSEF # cs) fa = run_calls cs (asyncclosef fa)"

text \<open>No call of \<^const>\<open>asyncopenf\<close> in the sequence returns false.\<close>

fun none_failed :: "async_call list \<Rightarrow> FileAccess \<Rightarrow> bool" where
  "none_failed [] fa = True"
| "none_failed (ASYNCOPENF os # cs) fa =
     (fst (asyncopenf os fa) \<and> none_failed cs (snd (asyncopenf os fa)))"
| "none_failed (ASYNCCLOSEF # cs) fa = none_failed cs (asyncclosef fa)"

text \<open>The number of concurrent readers after a sequence of calls that starts with \<open>n\<close>
  readers; \<^term>\<open>None\<close> when a reader is closed that was never opened.\<close>

fun readers :: "nat \<Rightarrow> async_call list \<Rightarrow> nat option" where
  "readers n [] = Some n"
| "readers n (ASYNCOPENF os # cs) = readers (Suc n) cs"
| "readers n (ASYNCCLOSEF # cs) = (if n = 0 then None else readers (n - 1) cs)"

text \<open>
  The specification's wording of the reference counting: "the real handle opens on the
  first concurrent reader and closes only when the last concurrent reader finishes".
  \<open>refcount_trace n cs\<close> lists the system calls this prescribes for the calls \<open>cs\<close> made
  with \<open>n\<close> readers present.
\<close>

fun refcount_trace :: "nat \<Rightarrow> async_call list \<Rightarrow> syscall list" where
  "refcount_trace n [] = []"
| "refcount_trace n (ASYNCOPENF os # cs) =
     (if n = 0 then [SYSOPEN True] else []) @ refcount_trace (Suc n) cs"
| "refcount_trace n (ASYNCCLOSEF # cs) =
     (if n = 1 then [SYSCLOSE] else []) @ refcount_trace (n - 1) cs"

subsection \<open>Concrete file states and platforms\<close>

text \<open>A freshly constructed \<^verbatim>\<open>FileAccess\<close> (no async handle, no readers), a platform whose
  stat fails, and platforms whose stat reports the given time and size.\<close>

definition fresh_fa :: FileAccess where
  "fresh_fa = \<lparr>nonblocking_localname = [], mtime = 0, fsize = 0, retry = False,
     ftype = TYPE_UNKNOWN, fsidvalid = False, fsid = 0, isAsyncOpened = False,
     numAsyncReads = 0, syscalls = []\<rparr>"

definition stat_fails :: platform where
  "stat_fails = \<lparr>sysstat = (\<lambda>fa. None), sysopen = (\<lambda>async fa. True)\<rparr>"

definition stat_gives :: "int \<Rightarrow> int \<Rightarrow> platform" where
  "stat_gives m s = \<lparr>sysstat = (\<lambda>fa. Some (m, s)), sysopen = (\<lambda>async fa. True)\<rparr>"

section \<open>DirNotify\<close>

text \<open>
  The model is that of a build with \<^verbatim>\<open>ENABLE_SYNC\<close>. The queues of a watcher are indexed by
  the enumeration \<^verbatim>\<open>notifyqueue\<close>, declared in a header; besides the two queues named in
  \<^verbatim>\<open>notify\<close> there is at least one more, since \<^verbatim>\<open>notify\<close> tests for these two.
\<close>

datatype notifyqueue = DIREVENTS | EXTRA | RETRY

text \<open>One queue entry. A \<^verbatim>\<open>LocalNode*\<close> is an address, or null (\<^term>\<open>None\<close>).\<close>

record notification =
  timestamp :: nat
  localnode :: "nat option"
  path :: LocalPath

text \<open>The fields of a remote \<^verbatim>\<open>Node\<close> read by \<^verbatim>\<open>notify\<close>: the back pointer \<^verbatim>\<open>localnode\<close> and the
  attribute map \<^verbatim>\<open>attrs.map\<close>.\<close>

record Node =
  node_localnode :: "nat option"
  attrs :: "char \<rightharpoonup> string"

text \<open>The fields of a \<^verbatim>\<open>LocalNode\<close> read by \<^verbatim>\<open>notify\<close>, each prefixed with \<open>ln\<close>; \<open>ln_addr\<close>
  is the address of the object itself, the value a pointer to it compares equal to.\<close>

record LocalNode =
  ln_addr :: nat
  ln_node :: "Node option"
  ln_type :: nodetype_t
  ln_name :: string
  ln_fsid :: nat
  ln_mtime :: int
  ln_size :: int

text \<open>
  What \<^verbatim>\<open>notify\<close> consults outside the watcher: the clock \<^verbatim>\<open>Waiter::ds\<close>, the separator of
  the file system access, \<^verbatim>\<open>LocalNode::getLocalPath\<close>, the result of opening a new
  \<^verbatim>\<open>FileAccess\<close> on a path with \<^verbatim>\<open>fopen(tmppath, false, false)\<close> together with the state of
  that object afterwards, \<^verbatim>\<open>Sync::localnodebypath\<close>, and the comparison \<^verbatim>\<open>operator==\<close> of the
  \<^verbatim>\<open>FileFingerprint\<close> parts of a local node and its remote node.
\<close>

record sync_env =
  ds :: nat
  localseparator :: string
  getLocalPath :: "nat \<Rightarrow> LocalPath"
  fopen_path :: "LocalPath \<Rightarrow> bool \<times> FileAccess"
  localnodebypath :: "nat option \<Rightarrow> LocalPath \<Rightarrow> LocalNode option"
  fingerprint_equal :: "LocalNode \<Rightarrow> Node \<Rightarrow> bool"

text \<open>The \<^verbatim>\<open>Sync\<close> a watcher belongs to: its flag \<^verbatim>\<open>initializing\<close> and the flag
  \<^verbatim>\<open>client->syncactivity\<close> reached through it.\<close>

record Sync =
  initializing :: bool
  syncactivity :: bool

record DirNotify =
  notifyq :: "notifyqueue \<Rightarrow> notification list"
  sync :: "Sync option"

text \<open>The constructor leaves the queues empty and \<^verbatim>\<open>sync\<close> null.\<close>

definition DirNotify_new :: DirNotify where
  "DirNotify_new = \<lparr>notifyq = (\<lambda>q. []), sync = None\<rparr>"

datatype error = NullSyncDereference

text \<open>The path that is opened: the local path of \<open>l\<close> (empty for a null \<open>l\<close>), to which a
  non-empty relative path is appended after a separator.\<close>

definition tmppath :: "sync_env \<Rightarrow> nat option \<Rightarrow> LocalPath \<Rightarrow> LocalPath" where
  "tmppath env l p =
     (let tmp = (case l of None \<Rightarrow> [] | Some a \<Rightarrow> getLocalPath env a)
      in if p \<noteq> [] then separatorAppend tmp p (localseparator env) False else tmp)"

text \<open>The condition under which the event is taken for the engine's own change.\<close>

definition self_notification :: "sync_env \<Rightarrow> nat option \<Rightarrow> LocalPath \<Rightarrow> bool" where
  "self_notification env l p =
     (let (success, fa) = fopen_path env (tmppath env l p);
          ll = localnodebypath env l p
      in (ll = None \<and> \<not> success \<and> \<not> retry fa)
         \<or> (case ll of
               None \<Rightarrow> False
             | Some ll \<Rightarrow>
                 success
                 \<and> (case ln_node ll of
                       None \<Rightarrow> False
                     | Some n \<Rightarrow>
                         node_localnode n = Some (ln_addr ll)
                         \<and> (ln_type ll \<noteq> FILENODE \<or> fingerprint_equal env ll n)
                         \<and> (case attrs n CHR ''n'' of
                               None \<Rightarrow> False
                             | Some v \<Rightarrow> v = ln_name ll)
                         \<and> fsidvalid fa \<and> fsid fa = ln_fsid ll \<and> ftype fa = ln_type ll
                         \<and> (ln_type ll \<noteq> FILENODE
                             \<or> (ln_mtime ll = mtime fa \<and> ln_size ll = fsize fa)))))"

text \<open>
  \<^verbatim>\<open>DirNotify::notify(q, l, path, immediate)\<close>. The three exits are the return after a
  repeated notification, the return after a self notification, and the end of the
  function after the entry has been appended. Setting \<^verbatim>\<open>sync->client->syncactivity\<close>
  dereferences \<^verbatim>\<open>sync\<close> without a test; with a null \<^verbatim>\<open>sync\<close> this is an error.
\<close>

definition notify ::
  "sync_env \<Rightarrow> notifyqueue \<Rightarrow> nat option \<Rightarrow> LocalPath \<Rightarrow> bool \<Rightarrow> DirNotify \<Rightarrow> error + DirNotify" where
  "notify env q l p immediate dn =
     (if (q = DIREVENTS \<or> q = EXTRA)
         \<and> length (notifyq dn q) \<noteq> 0
         \<and> localnode (last (notifyq dn q)) = l
         \<and> path (last (notifyq dn q)) = p
      then
        (if timestamp (last (notifyq dn q)) \<noteq> 0
         then Inr (dn\<lparr>notifyq := (notifyq dn)
                (q := butlast (notifyq dn q)
                      @ [(last (notifyq dn q))\<lparr>timestamp := (if immediate then 0 else ds env)\<rparr>])\<rparr>)
         else Inr dn)
      else if \<not> immediate
              \<and> (case sync dn of None \<Rightarrow> False | Some s \<Rightarrow> \<not> initializing s)
              \<and> q = DIREVENTS
              \<and> self_notification env l p
      then Inr dn
      else
        (case (if q = DIREVENTS \<or> q = EXTRA
               then (case sync dn of
                       None \<Rightarrow> Inl NullSyncDereference
                     | Some s \<Rightarrow> Inr (dn\<lparr>sync := Some (s\<lparr>syncactivity := True\<rparr>)\<rparr>))
               else Inr dn) of
           Inl e \<Rightarrow> Inl e
         | Inr dn1 \<Rightarrow>
             Inr (dn1\<lparr>notifyq := (notifyq dn1)
                    (q := notifyq dn1 q
                          @ [\<lparr>timestamp = (if immediate then 0 else ds env),
                              localnode = l, path = p\<rparr>])\<rparr>)))"

subsection \<open>Concrete environments\<close>

text \<open>An environment at clock tick \<open>t\<close> in which nothing is tracked and nothing is on disk:
  no local node is found and the open fails without the retry flag.\<close>

definition deleted_env :: "nat \<Rightarrow> sync_env" where
  "deleted_env t = \<lparr>ds = t, localseparator = ''/'', getLocalPath = (\<lambda>a. ''/root''),
     fopen_path = (\<lambda>p. (False, fresh_fa)),
     localnodebypath = (\<lambda>l p. None),
     fingerprint_equal = (\<lambda>ll n. True)\<rparr>"

text \<open>A tracked entry at address 1 named \<^verbatim>\<open>a\<close>, of type \<open>ty\<close>, with file system id 7,
  modification time 1 and size 2, paired with a remote node that points back to it.\<close>

definition tracked :: "nodetype_t \<Rightarrow> LocalNode" where
  "tracked ty = \<lparr>ln_addr = 1,
     ln_node = Some \<lparr>node_localnode = Some 1, attrs = [CHR ''n'' \<mapsto> ''a'']\<rparr>,
     ln_type = ty, ln_name = ''a'', ln_fsid = 7, ln_mtime = 1, ln_size = 2\<rparr>"

text \<open>An environment at clock tick 5 in which that entry is found, its fingerprint is
  unchanged, and the open succeeds on an entry of type \<open>fty\<close> with file system id 7,
  modification time \<open>m\<close> and size 2.\<close>

definition synced_env :: "nodetype_t \<Rightarrow> nodetype_t \<Rightarrow> int \<Rightarrow> sync_env" where
  "synced_env ty fty m = \<lparr>ds = 5, localseparator = ''/'', getLocalPath = (\<lambda>a. ''/root''),
     fopen_path = (\<lambda>p. (True, fresh_fa\<lparr>fsidvalid := True, fsid := 7, ftype := fty,
                                      mtime := m, fsize := 2\<rparr>)),
     localnodebypath = (\<lambda>l p. Some (tracked ty)),
     fingerprint_equal = (\<lambda>ll n. True)\<rparr>"

text \<open>A watcher attached to a sync whose initial scan is over, with empty queues.\<close>

definition scanned_watcher :: DirNotify where
  "scanned_watcher = DirNotify_new\<lparr>sync := Some \<lparr>initializing = False, syncactivity = False\<rparr>\<rparr>"

section \<open>Escaping: proofs\<close>

text \<open>The escape loop replaces every byte by its escape, in place.\<close>

lemma escape_loop_concat:
  "i \<le> length name \<Longrightarrow>
   escape_loop i name = concat (map escchar (take i name)) @ drop i name"
proof (induction i arbitrary: name)
  case 0
  then show ?case by simp
next
  case (Suc i)
  let ?name' = "take i name @ escchar (name ! i) @ drop (Suc i) name"
  from Suc.prems have lt: "i < length name" by simp
  have step: "escape_loop (Suc i) name = escape_loop i ?name'"
    using lt by (simp add: escchar_def replace_def id_take_nth_drop [symmetric])
  have "i \<le> length ?name'" using lt by simp
  from Suc.IH [OF this] have "escape_loop i ?name' = concat (map escchar (take i name)) @ escchar (name ! i) @ drop (Suc i) name"
    using lt by simp
  with step show ?case using lt by (simp add: take_Suc_conv_app_nth)
qed

lemma hexdigit_props:
  assumes "d < 16"
  shows "islchex (hexdigit d)" "hexval (hexdigit d) = d" "islocalfscompatible (hexdigit d)" "hexdigit d \<noteq> CHR ''%''"
proof -
  from assms have "d = 0 \<or> d = 1 \<or> d = 2 \<or> d = 3 \<or> d = 4 \<or> d = 5 \<or> d = 6 \<or> d = 7 \<or> d = 8
      \<or> d = 9 \<or> d = 10 \<or> d = 11 \<or> d = 12 \<or> d = 13 \<or> d = 14 \<or> d = 15" by arith
  then show "islchex (hexdigit d)" "hexval (hexdigit d) = d" "islocalfscompatible (hexdigit d)" "hexdigit d \<noteq> CHR ''%''"
    by (auto simp: hexdigit_def islchex_def hexval_def islocalfscompatible_def badchars_def)
qed

lemma unescape_loop_foldr:
  "length p = i \<Longrightarrow> unescape_loop i (p @ t) = foldr ustep p t"
proof (induction i arbitrary: p t)
  case 0
  then show ?case by simp
next
  case (Suc i)
  then obtain q c where p: "p = q @ [c]" and lq: "length q = i"
    by (cases p rule: rev_cases) auto
  have a0: "\<And>c. char_at (q @ c # t) i = c" using lq by (simp add: char_at_def nth_append)
  have a1: "\<And>c. char_at (q @ c # t) (Suc i) = char_at t 0" using lq by (simp add: char_at_def nth_append)
  have a2: "\<And>c. char_at (q @ c # t) (Suc (Suc i)) = char_at t 1" using lq by (simp add: char_at_def nth_append)
  have r: "\<And>c d. replace i 3 [d] (q @ c # t) = q @ d # drop 2 t"
    using lq by (simp add: replace_def)
  have "unescape_loop (Suc i) (q @ c # t) = unescape_loop i (q @ ustep c t)"
    using a0 a1 a2 r by (simp add: ustep_def triplet_def decode_def Let_def)
  also have "\<dots> = foldr ustep q (ustep c t)" using Suc.IH [OF lq] .
  finally show ?case using p by simp
qed

lemma not_islchex_nul: "\<not> islchex (CHR 0x00)"
  by (simp add: islchex_def)

lemma ustep_short: "length r < 2 \<Longrightarrow> ustep c r = c # r"
  by (simp add: ustep_def triplet_def char_at_def not_islchex_nul)

lemma foldr_ustep_short: "length q \<le> 2 \<Longrightarrow> foldr ustep q [] = q"
proof -
  assume "length q \<le> 2"
  then consider "q = []" | a where "q = [a]" | a b where "q = [a, b]"
    by (cases q; cases "tl q"; cases "tl (tl q)") auto
  then show ?thesis by cases (simp_all add: ustep_short)
qed

lemma unescape_loop_all: "unescape_loop (length s - 2) s = foldr ustep s []"
proof -
  let ?p = "take (length s - 2) s" and ?t = "drop (length s - 2) s"
  have "unescape_loop (length s - 2) (?p @ ?t) = foldr ustep ?p ?t"
    by (rule unescape_loop_foldr) simp
  moreover have "foldr ustep ?t [] = ?t" by (rule foldr_ustep_short) simp
  moreover have "foldr ustep (?p @ ?t) [] = foldr ustep ?p (foldr ustep ?t [])"
    by (simp only: foldr_append)
  ultimately show ?thesis by (simp only: append_take_drop_id)
qed

lemma decode_sprintf:
  "decode (hexdigit (of_char c div 16)) (hexdigit (of_char c mod 16)) = c"
proof -
  have lt: "(of_char c :: nat) < 256" by simp
  then have d: "(of_char c :: nat) div 16 < 16" by arith
  have m: "(of_char c :: nat) mod 16 < 16" by simp
  have "push_bit 4 ((of_char c :: nat) div 16) + of_char c mod 16 = of_char c"
    by (simp add: push_bit_eq_mult)
  then show ?thesis
    by (simp add: decode_def hexdigit_props(2) [OF d] hexdigit_props(2) [OF m])
qed

lemma foldr_ustep_escchar:
  assumes "\<not> triplet c r"
  shows "foldr ustep (escchar c) r = c # r"
proof (cases "islocalfscompatible c")
  case True
  then show ?thesis using assms by (simp add: escchar_def ustep_def)
next
  case False
  let ?h = "hexdigit (of_char c div 16)" and ?l = "hexdigit (of_char c mod 16)"
  have "(of_char c :: nat) < 256" by simp
  then have d: "(of_char c :: nat) div 16 < 16" by arith
  have m: "(of_char c :: nat) mod 16 < 16" by simp
  have 1: "ustep ?l r = ?l # r" using hexdigit_props(4) [OF m] by (simp add: ustep_def triplet_def)
  have 2: "ustep ?h (?l # r) = ?h # ?l # r" using hexdigit_props(4) [OF d] by (simp add: ustep_def triplet_def)
  have 3: "ustep CHR ''%'' (?h # ?l # r) = c # r"
    using hexdigit_props(1) [OF d] hexdigit_props(1) [OF m] False
    by (simp add: ustep_def triplet_def char_at_def decode_sprintf)
  show ?thesis using False 1 2 3 by (simp add: escchar_def sprintf_pct02x_def)
qed

lemma foldr_ustep_escape:
  "no_escape_triplet x \<Longrightarrow> foldr ustep (concat (map escchar x)) [] = x"
  by (induction x) (simp_all add: foldr_ustep_escchar)


lemma escchar_compatible: "list_all islocalfscompatible (escchar c)"
proof -
  have "(of_char c :: nat) < 256" by simp
  then have d: "(of_char c :: nat) div 16 < 16" by arith
  have m: "(of_char c :: nat) mod 16 < 16" by simp
  have "islocalfscompatible CHR ''%''" by (simp add: islocalfscompatible_def badchars_def)
  then show ?thesis
    using hexdigit_props(3) [OF d] hexdigit_props(3) [OF m]
    by (simp add: escchar_def sprintf_pct02x_def)
qed

lemma concat_escchar_compatible: "list_all islocalfscompatible (concat (map escchar x))"
  by (induction x) (simp_all add: escchar_compatible)

lemma concat_escchar_id: "list_all islocalfscompatible x \<Longrightarrow> concat (map escchar x) = x"
  by (induction x) (simp_all add: escchar_def)

lemma escape_loop_length: "escape_loop (length name) name = concat (map escchar name)"
  using escape_loop_concat [of "length name" name] by simp

lemma concat_escchar_no_percent:
  "CHR ''%'' \<notin> set (concat (map escchar x)) \<Longrightarrow> concat (map escchar x) = x"
proof (induction x)
  case Nil
  then show ?case by simp
next
  case (Cons c x)
  then have "islocalfscompatible c"
    by (auto simp: escchar_def sprintf_pct02x_def split: if_splits)
  with Cons show ?case by (simp add: escchar_def)
qed

lemma escapefsincompatible_not_dots:
  "escapefsincompatible x \<noteq> ''.'' \<and> escapefsincompatible x \<noteq> ''..''"
proof (cases "x = ''..'' \<or> x = ''.''")
  case True
  then show ?thesis by (auto simp: escapefsincompatible_def replace_def)
next
  case False
  then have e: "escapefsincompatible x = concat (map escchar x)"
    by (simp add: escapefsincompatible_def escape_loop_length)
  have "concat (map escchar x) \<noteq> ''.''"
  proof
    assume a: "concat (map escchar x) = ''.''"
    then have "CHR ''%'' \<notin> set (concat (map escchar x))" by simp
    then have "concat (map escchar x) = x" by (rule concat_escchar_no_percent)
    with a False show False by simp
  qed
  moreover have "concat (map escchar x) \<noteq> ''..''"
  proof
    assume a: "concat (map escchar x) = ''..''"
    then have "CHR ''%'' \<notin> set (concat (map escchar x))" by simp
    then have "concat (map escchar x) = x" by (rule concat_escchar_no_percent)
    with a False show False by simp
  qed
  ultimately show ?thesis using e by simp
qed

lemma escapefsincompatible_compatible:
  "list_all islocalfscompatible (escapefsincompatible x)"
proof (cases "x = ''..'' \<or> x = ''.''")
  case True
  then show ?thesis
    by (auto simp: escapefsincompatible_def replace_def islocalfscompatible_def badchars_def)
next
  case False
  then show ?thesis
    by (simp add: escapefsincompatible_def escape_loop_length concat_escchar_compatible)
qed

lemma escapefsincompatible_fixed:
  assumes "list_all islocalfscompatible name" "name \<noteq> ''.''" "name \<noteq> ''..''"
  shows "escapefsincompatible name = name"
  using assms by (simp add: escapefsincompatible_def escape_loop_length concat_escchar_id)

text \<open>
  Claim C9. The result of \<^const>\<open>escapefsincompatible\<close> consists of bytes allowed in local
  names only, and escaping it a second time leaves it unchanged.
\<close>

theorem escapefsincompatible_idempotent:
  "list_all islocalfscompatible (escapefsincompatible x)
   \<and> escapefsincompatible (escapefsincompatible x) = escapefsincompatible x"
  using escapefsincompatible_compatible [of x] escapefsincompatible_not_dots [of x]
  by (simp add: escapefsincompatible_fixed)

lemma unescape_escape:
  assumes "x \<noteq> ''%2e''" "x \<noteq> ''%2e%2e''" "no_escape_triplet x"
  shows "unescapefsincompatible (escapefsincompatible x) = x"
proof (cases "x = ''..'' \<or> x = ''.''")
  case True
  then show ?thesis
    by (auto simp: escapefsincompatible_def unescapefsincompatible_def replace_def)
next
  case False
  then have e: "escapefsincompatible x = concat (map escchar x)"
    by (simp add: escapefsincompatible_def escape_loop_length)
  have f: "foldr ustep (concat (map escchar x)) [] = x"
    using assms(3) by (rule foldr_ustep_escape)
  have t1: "foldr ustep ''%2e'' [] = ''%2e''"
    by (simp add: ustep_def triplet_def char_at_def decode_def hexval_def
        islocalfscompatible_def badchars_def islchex_def char_of_eq_iff)
  have t2: "foldr ustep ''%2e%2e'' [] = ''%2e%2e''"
    by (simp add: ustep_def triplet_def char_at_def decode_def hexval_def
        islocalfscompatible_def badchars_def islchex_def char_of_eq_iff)
  have n1: "concat (map escchar x) \<noteq> ''%2e''" using f t1 assms(1) by auto
  have n2: "concat (map escchar x) \<noteq> ''%2e%2e''" using f t2 assms(2) by auto
  show ?thesis
    using e n1 n2 f by (simp add: unescapefsincompatible_def unescape_loop_all)
qed

text \<open>
  Claim C1 (as amended). When \<^verbatim>\<open>local2path\<close> undoes \<^verbatim>\<open>path2local\<close>, converting a
  presentation name with \<^const>\<open>name2local\<close> and back with \<^const>\<open>local2name\<close> returns the
  name, provided the name is neither of the reserved escapes \<^verbatim>\<open>%2e\<close>, \<^verbatim>\<open>%2e%2e\<close> and
  contains no literal percent sign followed by two lower-case hex digits that encode a byte
  not allowed in local names. The names \<^verbatim>\<open>.\<close> and \<^verbatim>\<open>..\<close> are covered.
\<close>

theorem local2name_name2local_roundtrip:
  assumes "\<And>s. local2path (path2local s) = s"
    and "x \<noteq> ''%2e''" and "x \<noteq> ''%2e%2e''" and "no_escape_triplet x"
  shows "local2name local2path (name2local path2local x) = x"
  using assms by (simp add: local2name_def name2local_def unescape_escape)

text \<open>The law at two concrete names, with the identity as encoding conversion.\<close>

theorem local2name_name2local_roundtrip_witness:
  "local2name id (name2local id ''a/b%2x:..'') = ''a/b%2x:..''
   \<and> local2name id (name2local id ''..'') = ''..''"
proof -
  have t: "no_escape_triplet ''a/b%2x:..''" "no_escape_triplet ''..''"
    by (simp_all add: triplet_def char_at_def islchex_def)
  show ?thesis
    using local2name_name2local_roundtrip [of id id "''a/b%2x:..''"]
      local2name_name2local_roundtrip [of id id "''..''"] t
    by simp
qed

text \<open>
  Claim C1 as stated fails: the percent sign is itself allowed in local names and is
  never escaped, so a presentation name that already contains an escape sequence is decoded
  on the way back.
\<close>

theorem local2name_name2local_counterexample:
  "local2name id (name2local id ''%2f'') = ''/'' \<and> local2name id (name2local id ''%2e'') = ''.''"
  by (simp add: local2name_def name2local_def escapefsincompatible_def unescapefsincompatible_def
      replace_def islocalfscompatible_def badchars_def char_at_def islchex_def hexval_def
      Let_def char_of_eq_iff)

section \<open>normalize: proofs\<close>

declare normalize_loop.simps [simp del]

lemma nfc_fails_Nil: "\<not> nfc_fails nfc []"
  by (simp add: nfc_fails_def)

lemma nfc_run_Nil: "nfc_run nfc [] = []"
  by (simp add: nfc_run_def)

lemma split_nul_nonempty: "split_nul s \<noteq> []"
  by (induction s) (auto split: list.splits)

lemma split_nul_run_end: "CHR 0x00 \<notin> set r \<Longrightarrow> split_nul r = [r]"
  by (induction r) auto

lemma split_nul_run_nul: "CHR 0x00 \<notin> set r \<Longrightarrow> split_nul (r @ CHR 0x00 # t) = r # split_nul t"
  by (induction r) auto

lemma join_nul_Cons: "rs \<noteq> [] \<Longrightarrow> join_nul (r # rs) = r @ [CHR 0x00] @ join_nul rs"
  by (cases rs) simp_all

lemma normalize_loop_runs:
  "normalize_loop nfc filename i result =
     (if list_ex (nfc_fails nfc) (split_nul (drop i filename)) then []
      else result @ join_nul (map (nfc_run nfc) (split_nul (drop i filename))))"
proof (induction nfc filename i result rule: normalize_loop.induct)
  case (1 nfc filename i result)
  show ?case
  proof (cases "i < length filename")
    case False
    then show ?thesis
      by (subst normalize_loop.simps) (simp add: nfc_fails_Nil nfc_run_Nil)
  next
    case lt: True
    then have d: "drop i filename = filename ! i # drop (Suc i) filename"
      by (simp add: Cons_nth_drop_Suc)
    show ?thesis
    proof (cases "filename ! i = CHR 0x00")
      case True
      have l: "normalize_loop nfc filename i result
               = normalize_loop nfc filename (i + 1) (result @ [CHR 0x00])"
        using lt True by (subst normalize_loop.simps) simp
      have s: "split_nul (drop i filename) = [] # split_nul (drop (Suc i) filename)"
        using d True by simp
      show ?thesis
        using "1.IH"(1) [OF lt True] l s
        by (simp add: split_nul_nonempty join_nul_Cons nfc_fails_Nil nfc_run_Nil)
    next
      case nz: False
      let ?P = "\<lambda>b. b \<noteq> CHR 0x00"
      let ?sub = "takeWhile ?P (drop i filename)"
      let ?t = "dropWhile ?P (drop i filename)"
      have sub_ne: "?sub \<noteq> []" using d nz by simp
      have sub_set: "CHR 0x00 \<notin> set ?sub"
        using set_takeWhileD [of "CHR 0x00" ?P "drop i filename"] by auto
      have dt: "drop (i + length ?sub) filename = ?t"
        by (simp add: dropWhile_eq_drop add.commute)
      have st: "drop i filename = ?sub @ ?t" by simp
      show ?thesis
      proof (cases "nfc ?sub")
        case None
        have l: "normalize_loop nfc filename i result = []"
          using lt nz None by (subst normalize_loop.simps) simp
        have "nfc_fails nfc ?sub" using None sub_ne by (simp add: nfc_fails_def)
        moreover have "?sub \<in> set (split_nul (drop i filename))"
        proof (cases ?t)
          case Nil
          then have "drop i filename = ?sub" by (metis st append_Nil2)
          then have "split_nul (drop i filename) = [?sub]"
            using split_nul_run_end [OF sub_set] by simp
          then show ?thesis by simp
        next
          case (Cons a t')
          then have "a = CHR 0x00" using hd_dropWhile [of ?P "drop i filename"] by auto
          with Cons have "?t = CHR 0x00 # t'" by simp
          then have "drop i filename = ?sub @ CHR 0x00 # t'" by (metis st)
          then have "split_nul (drop i filename) = ?sub # split_nul t'"
            using split_nul_run_nul [OF sub_set, of t'] by simp
          then show ?thesis by simp
        qed
        ultimately have "list_ex (nfc_fails nfc) (split_nul (drop i filename))"
          by (auto simp: list_ex_iff)
        with l show ?thesis by simp
      next
        case (Some n)
        have l: "normalize_loop nfc filename i result
                 = normalize_loop nfc filename (i + length ?sub) (result @ n)"
          using lt nz Some by (subst normalize_loop.simps) simp
        have ih: "normalize_loop nfc filename (i + length ?sub) (result @ n) =
            (if list_ex (nfc_fails nfc) (split_nul ?t) then []
             else (result @ n) @ join_nul (map (nfc_run nfc) (split_nul ?t)))"
          using "1.IH"(2) [OF lt nz refl Some] dt by simp
        have nf: "\<not> nfc_fails nfc ?sub" using Some by (simp add: nfc_fails_def)
        have nr: "nfc_run nfc ?sub = n" using Some sub_ne by (simp add: nfc_run_def)
        show ?thesis
        proof (cases ?t)
          case Nil
          then have "drop i filename = ?sub" by (metis st append_Nil2)
          then have sp: "split_nul (drop i filename) = [?sub]"
            using split_nul_run_end [OF sub_set] by simp
          have "normalize_loop nfc filename i result = result @ n"
            using l ih Nil by (simp add: nfc_fails_Nil nfc_run_Nil)
          then show ?thesis using sp nf nr by simp
        next
          case (Cons a t')
          then have "a = CHR 0x00" using hd_dropWhile [of ?P "drop i filename"] by auto
          then have t: "?t = CHR 0x00 # t'" using Cons by simp
          then have "drop i filename = ?sub @ CHR 0x00 # t'" by (metis st)
          then have sp: "split_nul (drop i filename) = ?sub # split_nul t'"
            using split_nul_run_nul [OF sub_set, of t'] by simp
          have spt: "split_nul ?t = [] # split_nul t'" using t by simp
          have "normalize_loop nfc filename i result =
              (if list_ex (nfc_fails nfc) (split_nul t') then []
               else result @ n @ [CHR 0x00] @ join_nul (map (nfc_run nfc) (split_nul t')))"
            using l ih spt
            by (simp add: split_nul_nonempty join_nul_Cons nfc_fails_Nil nfc_run_Nil)
          then show ?thesis
            using sp nf nr by (simp add: split_nul_nonempty join_nul_Cons)
        qed
      qed
    qed
  qed
qed

text \<open>
  Claim C8. \<^const>\<open>normalize\<close> computes what the specification describes: the input is
  split at its NUL bytes, every non-empty run is normalised on its own, and the results
  are joined with the NUL bytes in place; a failure on any run gives the empty string.
\<close>

theorem normalize_refines_spec:
  "normalize utf8proc_NFC filename = normalize_spec utf8proc_NFC filename"
  by (simp add: normalize_def normalize_spec_def normalize_loop_runs)

section \<open>LocalPath: proofs\<close>

lemma memcmp_eq_prefix:
  "length parent \<le> length child \<Longrightarrow>
   memcmp_eq (data child) (data parent) (length parent) = Some (take (length parent) child = parent)"
  by (simp add: memcmp_eq_def data_def)

lemma memcmp_eq_separator:
  "length parent + length sep \<le> length child \<Longrightarrow>
   memcmp_eq (drop (length parent) (data child)) (data sep) (length sep)
   = Some (take (length sep) (drop (length parent) child) = sep)"
  by (simp add: memcmp_eq_def data_def)

lemma aligned_gap:
  assumes "length (sep :: string) dvd length (parent :: string)" and "length sep dvd length (child :: string)"
    and "length parent < length child"
  shows "length parent + length sep \<le> length child"
proof -
  from assms(1) obtain a where a: "length parent = length sep * a" by (auto simp: dvd_def)
  from assms(2) obtain b where b: "length child = length sep * b" by (auto simp: dvd_def)
  from assms(3) a b have "a < b" by (metis mult_less_cancel1)
  then have "Suc a \<le> b" by simp
  then have "length sep * Suc a \<le> length sep * b" by (rule mult_le_mono2)
  with a b show ?thesis by simp
qed

text \<open>
  Claim C7. For local paths made of whole code units of the separator's width (their
  lengths are multiples of the separator's length; always so for a one-byte separator),
  \<^const>\<open>isContainingPathOf\<close> returns true exactly when the child's bytes begin with the
  parent's bytes and either the lengths are equal or a complete separator follows the
  parent's length in the child.
\<close>

theorem isContainingPathOf_iff:
  assumes "length sep dvd length parent"
    and "length sep dvd length child"
  shows "isContainingPathOf parent child sep =
     Some (take (length parent) child = parent
           \<and> (length child = length parent
              \<or> take (length sep) (drop (length parent) child) = sep))"
proof (cases "length parent \<le> length child")
  case False
  then have "take (length parent) child \<noteq> parent"
    by (metis length_take min.cobounded1)
  with False show ?thesis by (simp add: isContainingPathOf_def)
next
  case le: True
  show ?thesis
  proof (cases "length child = length parent")
    case True
    then show ?thesis
      using memcmp_eq_prefix [OF le] by (simp add: isContainingPathOf_def split: bool.splits)
  next
    case False
    with le have "length parent < length child" by simp
    from aligned_gap [OF assms this]
    have "length parent + length sep \<le> length child" .
    from memcmp_eq_separator [OF this] memcmp_eq_prefix [OF le] False le
    show ?thesis by (simp add: isContainingPathOf_def split: bool.splits)
  qed
qed

text \<open>The two examples of the specification, with the separator \<^verbatim>\<open>/\<close>.\<close>

theorem isContainingPathOf_iff_witness:
  "isContainingPathOf ''/a/b'' ''/a/b/c'' ''/'' = Some True
   \<and> isContainingPathOf ''/a/b'' ''/a/bc'' ''/'' = Some False"
  using isContainingPathOf_iff [of "''/''" "''/a/b''" "''/a/b/c''"]
    isContainingPathOf_iff [of "''/''" "''/a/b''" "''/a/bc''"]
  by simp

text \<open>
  The hypothesis is about byte strings that are not paths of the platform. With a
  two-byte separator that ends in a NUL byte (a UTF-16 backslash) and a child of odd
  length, the second comparison reads the child's terminating NUL as part of a separator.
\<close>

lemma isContainingPathOf_partial_unit:
  "isContainingPathOf [] [CHR 0x5C] [CHR 0x5C, CHR 0x00] = Some True"
  by (simp add: isContainingPathOf_def memcmp_eq_def data_def)

section \<open>FileAccess: proofs\<close>

lemma fopen_name:
  "fopen os0 name fa0 = (ok, fa) \<Longrightarrow> nonblocking_localname fa = name"
  by (auto simp: fopen_def updatelocalname_def Let_def split: option.splits)

lemma fopen_captured:
  "fopen os0 name fa0 = (True, fa) \<Longrightarrow>
   sysstat os0 (fa0\<lparr>nonblocking_localname := name\<rparr>) = Some (mtime fa, fsize fa)"
  by (auto simp: fopen_def updatelocalname_def Let_def split: option.splits)

text \<open>
  Claim C4. Let \<^const>\<open>fopen\<close> on a non-empty path have succeeded, so that the modification
  time and size reported by the stat at that moment are cached. If the stat of a later
  \<^const>\<open>openf\<close> succeeds with a different time or size, \<^const>\<open>openf\<close> returns false, clears the
  retry flag and caches the new values; if both are unchanged it performs the real open
  and returns its result.
\<close>

theorem openf_after_fopen:
  assumes "name \<noteq> []"
    and "fopen os0 name fa0 = (True, fa)"
    and "sysstat os fa = Some (curr_mtime, curr_size)"
  shows "sysstat os0 (fa0\<lparr>nonblocking_localname := name\<rparr>) = Some (mtime fa, fsize fa)
    \<and> (curr_mtime \<noteq> mtime fa \<or> curr_size \<noteq> fsize fa \<longrightarrow>
         openf os fa = (False, fa\<lparr>mtime := curr_mtime, fsize := curr_size, retry := False\<rparr>))
    \<and> (curr_mtime = mtime fa \<and> curr_size = fsize fa \<longrightarrow>
         openf os fa = (sysopen os False fa, fa\<lparr>syscalls := syscalls fa @ [SYSOPEN False]\<rparr>))"
proof -
  from assms(1) fopen_name [OF assms(2)] have "nonblocking_localname fa \<noteq> []" by simp
  with assms(3) fopen_captured [OF assms(2)] show ?thesis
    by (simp add: openf_def)
qed

text \<open>A file of size 10 and time 5 at \<^const>\<open>fopen\<close>; then the size is found to be 11, or both
  values are found unchanged.\<close>

theorem openf_after_fopen_witness:
  "openf (stat_gives 5 11) (snd (fopen (stat_gives 5 10) ''f'' fresh_fa))
     = (False, (snd (fopen (stat_gives 5 10) ''f'' fresh_fa))\<lparr>mtime := 5, fsize := 11, retry := False\<rparr>)
   \<and> fst (openf (stat_gives 5 10) (snd (fopen (stat_gives 5 10) ''f'' fresh_fa)))
   \<and> syscalls (snd (openf (stat_gives 5 10) (snd (fopen (stat_gives 5 10) ''f'' fresh_fa))))
       = [SYSOPEN False]"
proof -
  let ?fa = "fresh_fa\<lparr>nonblocking_localname := ''f'', mtime := 5, fsize := 10\<rparr>"
  have f: "fopen (stat_gives 5 10) ''f'' fresh_fa = (True, ?fa)"
    by (simp add: fopen_def updatelocalname_def stat_gives_def fresh_fa_def)
  have n: "''f'' \<noteq> []" by simp
  have s1: "sysstat (stat_gives 5 11) ?fa = Some (5, 11)"
    by (simp add: stat_gives_def)
  have s2: "sysstat (stat_gives 5 10) ?fa = Some (5, 10)"
    by (simp add: stat_gives_def)
  have a: "openf (stat_gives 5 11) ?fa = (False, ?fa\<lparr>mtime := 5, fsize := 11, retry := False\<rparr>)"
    using openf_after_fopen [OF n f s1] by simp
  have b: "openf (stat_gives 5 10) ?fa
           = (sysopen (stat_gives 5 10) False ?fa, ?fa\<lparr>syscalls := syscalls ?fa @ [SYSOPEN False]\<rparr>)"
    using openf_after_fopen [OF n f s2] by simp
  show ?thesis
    by (simp only: f snd_conv a b) (simp add: stat_gives_def fresh_fa_def)
qed

subsection \<open>Reference counting of asynchronous readers\<close>

lemma finish_loop_completes:
  assumes "\<And>c. op (wait c) = op c"
  shows "finished ((wait ^^ n) ctx) \<Longrightarrow>
         \<exists>ctx'. finish_loop wait ctx = Some ctx' \<and> op ctx' = op ctx"
proof (induction n arbitrary: ctx)
  case 0
  then show ?case by (subst finish_loop.simps) simp
next
  case (Suc n)
  show ?case
  proof (cases "finished ctx")
    case True
    then show ?thesis by (subst finish_loop.simps) simp
  next
    case False
    from Suc.prems have "finished ((wait ^^ n) (wait ctx))"
      by (simp add: funpow_swap1)
    from Suc.IH [OF this] obtain ctx' where
      "finish_loop wait (wait ctx) = Some ctx'" "op ctx' = op (wait ctx)"
      by blast
    with False assms show ?thesis by (subst finish_loop.simps) simp
  qed
qed

lemma asyncopenf_count:
  "numAsyncReads (snd (asyncopenf os fa)) = numAsyncReads fa + 1"
  by (simp add: asyncopenf_def Let_def split: option.splits)

lemma asyncopenf_name:
  "nonblocking_localname (snd (asyncopenf os fa)) = nonblocking_localname fa"
  by (simp add: asyncopenf_def Let_def split: option.splits)

lemma asyncopenf_syscalls:
  "syscalls (snd (asyncopenf os fa)) =
     (if nonblocking_localname fa \<noteq> [] \<and> \<not> isAsyncOpened fa
         \<and> sysstat os (fa\<lparr>numAsyncReads := numAsyncReads fa + 1\<rparr>) = Some (mtime fa, fsize fa)
      then syscalls fa @ [SYSOPEN True] else syscalls fa)"
  by (auto simp: asyncopenf_def Let_def split: option.splits)

lemma asyncopenf_flag:
  "isAsyncOpened (snd (asyncopenf os fa)) =
     (isAsyncOpened fa
      \<or> (nonblocking_localname fa \<noteq> [] \<and> \<not> isAsyncOpened fa
          \<and> sysstat os (fa\<lparr>numAsyncReads := numAsyncReads fa + 1\<rparr>) = Some (mtime fa, fsize fa)
          \<and> sysopen os True (fa\<lparr>numAsyncReads := numAsyncReads fa + 1\<rparr>)))"
  by (auto simp: asyncopenf_def Let_def split: option.splits)

lemma asyncopenf_result:
  "fst (asyncopenf os fa) =
     (nonblocking_localname fa = [] \<or> isAsyncOpened fa
      \<or> (nonblocking_localname fa \<noteq> [] \<and> \<not> isAsyncOpened fa
          \<and> sysstat os (fa\<lparr>numAsyncReads := numAsyncReads fa + 1\<rparr>) = Some (mtime fa, fsize fa)
          \<and> sysopen os True (fa\<lparr>numAsyncReads := numAsyncReads fa + 1\<rparr>)))"
  by (auto simp: asyncopenf_def Let_def split: option.splits)

lemma asyncopenf_stale:
  assumes "nonblocking_localname fa \<noteq> []" and "\<not> isAsyncOpened fa"
    and "sysstat os (fa\<lparr>numAsyncReads := numAsyncReads fa + 1\<rparr>) = Some (m, s)"
    and "m \<noteq> mtime fa \<or> s \<noteq> fsize fa"
  shows "asyncopenf os fa =
     (False, fa\<lparr>numAsyncReads := numAsyncReads fa + 1, mtime := m, fsize := s, retry := False\<rparr>)"
  using assms by (auto simp: asyncopenf_def Let_def)

lemma asyncclosef_count:
  "numAsyncReads (asyncclosef fa) = numAsyncReads fa - 1"
  by (simp add: asyncclosef_def Let_def)

lemma asyncclosef_name:
  "nonblocking_localname (asyncclosef fa) = nonblocking_localname fa"
  by (simp add: asyncclosef_def Let_def)

lemma asyncclosef_syscalls:
  "syscalls (asyncclosef fa) =
     (if isAsyncOpened fa \<and> numAsyncReads fa - 1 = 0 then syscalls fa @ [SYSCLOSE] else syscalls fa)"
  by (simp add: asyncclosef_def Let_def)

lemma asyncclosef_flag:
  "isAsyncOpened (asyncclosef fa) = (isAsyncOpened fa \<and> numAsyncReads fa - 1 \<noteq> 0)"
  by (auto simp: asyncclosef_def Let_def)

lemma destructor_count:
  assumes "\<And>c. op (wait c) = op c" and "finished ((wait ^^ n) ctx)" and "op ctx = READ"
  shows "\<exists>fa'. AsyncIOContext_destructor wait ctx fa = Some fa'
               \<and> numAsyncReads fa' = numAsyncReads fa - 1"
proof (cases "finished ctx")
  case True
  with assms(3) show ?thesis
    by (simp add: AsyncIOContext_destructor_def finish_def asyncclosef_count)
next
  case False
  from finish_loop_completes [of wait n ctx, OF assms(1) assms(2)] obtain ctx' where
    "finish_loop wait ctx = Some ctx'" "op ctx' = op ctx" by blast
  with False assms(3) show ?thesis
    by (simp add: AsyncIOContext_destructor_def finish_def asyncclosef_count)
qed

text \<open>The counter of a machine \<^verbatim>\<open>int\<close> follows the number of readers as long as that number
  stays below \<open>2^31\<close>.\<close>

lemma count_zero_iff: "k < 2 ^ 31 \<Longrightarrow> (of_nat k :: 32 word) = 0 \<longleftrightarrow> k = 0"
proof
  assume lt: "k < 2 ^ 31" and z: "(of_nat k :: 32 word) = 0"
  show "k = 0"
  proof (rule ccontr)
    assume "k \<noteq> 0"
    then have "0 < k" by simp
    moreover from lt have "k < 2 ^ LENGTH(32)" by simp
    ultimately have "(of_nat k :: 32 word) \<noteq> 0" by (rule of_nat_neq_0)
    with z show False by simp
  qed
next
  assume "k = 0"
  then show "(of_nat k :: 32 word) = 0" by simp
qed

lemma count_pred: "0 < k \<Longrightarrow> (of_nat k :: 32 word) - 1 = of_nat (k - 1)"
  by (cases k) simp_all

lemma run_calls_count:
  fixes N :: nat
  assumes bound: "\<And>j. j < N \<Longrightarrow> ((of_nat j :: 32 word) = 0) = (j = 0)"
    and "numAsyncReads fa = of_nat k" and "isAsyncOpened fa \<longrightarrow> 0 < k"
    and "readers k cs = Some n" and "k + length cs < N"
  shows "numAsyncReads (run_calls cs fa) = of_nat n \<and> (isAsyncOpened (run_calls cs fa) \<longrightarrow> 0 < n)"
  using assms(2-)
proof (induction cs arbitrary: fa k)
  case Nil
  then show ?case by simp
next
  case (Cons c cs)
  show ?case
  proof (cases c)
    case (ASYNCOPENF os)
    let ?fa = "snd (asyncopenf os fa)"
    have "numAsyncReads ?fa = of_nat k + 1"
      by (simp only: asyncopenf_count Cons.prems(1))
    then have 1: "numAsyncReads ?fa = of_nat (Suc k)" by (simp only: of_nat_Suc add.commute)
    have 2: "isAsyncOpened ?fa \<longrightarrow> 0 < Suc k" by simp
    have 3: "readers (Suc k) cs = Some n" using Cons.prems(3) ASYNCOPENF by simp
    have 4: "Suc k + length cs < N" using Cons.prems(4) by simp
    from Cons.IH [OF 1 2 3 4] show ?thesis by (simp add: ASYNCOPENF)
  next
    case ASYNCCLOSEF
    let ?fa = "asyncclosef fa"
    from Cons.prems(3) ASYNCCLOSEF have k: "0 < k" and 3: "readers (k - 1) cs = Some n"
      by (simp_all split: if_splits)
    have e: "numAsyncReads fa - 1 = of_nat (k - 1)"
      by (simp only: Cons.prems(1) count_pred [OF k])
    have 1: "numAsyncReads ?fa = of_nat (k - 1)"
      by (simp only: asyncclosef_count e)
    have "k - 1 < N" using Cons.prems(4) by simp
    then have z: "((of_nat (k - 1) :: 32 word) = 0) = (k - 1 = 0)" by (rule bound)
    have "isAsyncOpened ?fa \<longrightarrow> k - 1 \<noteq> 0"
      by (simp only: asyncclosef_flag e z) simp
    then have 2: "isAsyncOpened ?fa \<longrightarrow> 0 < k - 1" by arith
    have 4: "(k - 1) + length cs < N" using Cons.prems(4) by simp
    from Cons.IH [OF 1 2 3 4] show ?thesis by (simp add: ASYNCCLOSEF)
  qed
qed

lemma run_calls_trace:
  fixes N :: nat
  assumes bound: "\<And>j. j < N \<Longrightarrow> ((of_nat j :: 32 word) = 0) = (j = 0)"
    and "numAsyncReads fa = of_nat k" and "isAsyncOpened fa = (0 < k)"
    and "readers k cs = Some n" and "k + length cs < N"
    and "nonblocking_localname fa \<noteq> []" and "none_failed cs fa"
  shows "syscalls (run_calls cs fa) = syscalls fa @ refcount_trace k cs
         \<and> isAsyncOpened (run_calls cs fa) = (0 < n)"
  using assms(2-)
proof (induction cs arbitrary: fa k)
  case Nil
  then show ?case by simp
next
  case (Cons c cs)
  show ?case
  proof (cases c)
    case (ASYNCOPENF os)
    let ?fa = "snd (asyncopenf os fa)"
    let ?opens = "nonblocking_localname fa \<noteq> [] \<and> \<not> isAsyncOpened fa
          \<and> sysstat os (fa\<lparr>numAsyncReads := numAsyncReads fa + 1\<rparr>) = Some (mtime fa, fsize fa)"
    from Cons.prems(6) ASYNCOPENF have ok: "fst (asyncopenf os fa)" and 6: "none_failed cs ?fa"
      by simp_all
    from ok have r: "isAsyncOpened fa
        \<or> (?opens \<and> sysopen os True (fa\<lparr>numAsyncReads := numAsyncReads fa + 1\<rparr>))"
      using Cons.prems(5) by (simp only: asyncopenf_result) blast
    have "numAsyncReads ?fa = of_nat k + 1"
      by (simp only: asyncopenf_count Cons.prems(1))
    then have 1: "numAsyncReads ?fa = of_nat (Suc k)" by (simp only: of_nat_Suc add.commute)
    have "isAsyncOpened ?fa" using r by (simp only: asyncopenf_flag) blast
    then have 2: "isAsyncOpened ?fa = (0 < Suc k)" by simp
    have 3: "readers (Suc k) cs = Some n" using Cons.prems(3) ASYNCOPENF by simp
    have 4: "Suc k + length cs < N" using Cons.prems(4) by simp
    have 5: "nonblocking_localname ?fa \<noteq> []" using Cons.prems(5) by (simp add: asyncopenf_name)
    have o: "?opens = (k = 0)"
    proof (cases "k = 0")
      case True
      then have "\<not> isAsyncOpened fa" using Cons.prems(2) by simp
      with r True show ?thesis by blast
    next
      case False
      then have "isAsyncOpened fa" using Cons.prems(2) by simp
      with False show ?thesis by blast
    qed
    have s: "syscalls ?fa = syscalls fa @ (if k = 0 then [SYSOPEN True] else [])"
      by (simp only: asyncopenf_syscalls o) simp
    from Cons.IH [OF 1 2 3 4 5 6] have
      "syscalls (run_calls cs ?fa) = syscalls ?fa @ refcount_trace (Suc k) cs"
      "isAsyncOpened (run_calls cs ?fa) = (0 < n)" by simp_all
    then show ?thesis by (simp add: ASYNCOPENF s)
  next
    case ASYNCCLOSEF
    let ?fa = "asyncclosef fa"
    from Cons.prems(3) ASYNCCLOSEF have k: "0 < k" and 3: "readers (k - 1) cs = Some n"
      by (simp_all split: if_splits)
    have f: "isAsyncOpened fa" using Cons.prems(2) k by simp
    have e: "numAsyncReads fa - 1 = of_nat (k - 1)"
      by (simp only: Cons.prems(1) count_pred [OF k])
    have 1: "numAsyncReads ?fa = of_nat (k - 1)"
      by (simp only: asyncclosef_count e)
    have "k - 1 < N" using Cons.prems(4) by simp
    then have z: "((of_nat (k - 1) :: 32 word) = 0) = (k - 1 = 0)" by (rule bound)
    have "isAsyncOpened ?fa = (k - 1 \<noteq> 0)"
      using f by (simp only: asyncclosef_flag e z) simp
    then have 2: "isAsyncOpened ?fa = (0 < k - 1)" by arith
    have 4: "(k - 1) + length cs < N" using Cons.prems(4) by simp
    have 5: "nonblocking_localname ?fa \<noteq> []" using Cons.prems(5) by (simp add: asyncclosef_name)
    have 6: "none_failed cs ?fa" using Cons.prems(6) ASYNCCLOSEF by simp
    have "syscalls ?fa = (if k - 1 = 0 then syscalls fa @ [SYSCLOSE] else syscalls fa)"
      using f by (simp only: asyncclosef_syscalls e z) simp
    then have s: "syscalls ?fa = syscalls fa @ (if k = 1 then [SYSCLOSE] else [])"
      using k by (cases "k = 1") simp_all
    from Cons.IH [OF 1 2 3 4 5 6] have
      "syscalls (run_calls cs ?fa) = syscalls ?fa @ refcount_trace (k - 1) cs"
      "isAsyncOpened (run_calls cs ?fa) = (0 < n)" by simp_all
    then show ?thesis by (simp add: ASYNCCLOSEF s)
  qed
qed

text \<open>
  Claim C5 (as amended). The counter is a machine \<^verbatim>\<open>int\<close>. \<^const>\<open>asyncopenf\<close> counts every
  caller, and takes the system handle exactly when the file is in non-blocking mode, no
  asynchronous handle is held (\<^const>\<open>isAsyncOpened\<close> is clear) and the stat reports the
  cached time and size; the flag is set when that open succeeds, and the call returns
  true when the file is in blocking mode, a handle is already held, or the open
  succeeds. When the stat reports another time or size, the call fails, caches the new
  values and clears the retry flag, as \<^const>\<open>openf\<close> does. \<^const>\<open>asyncclosef\<close> decrements the counter, and releases the handle and clears
  the flag exactly when one is held and the counter returns to zero.

  For a sequence of fewer than \<open>2^31\<close> such calls on a \<^verbatim>\<open>FileAccess\<close> without readers and
  without handle, in which no reader is closed that was not opened: the counter is the
  number of concurrent readers, and a handle is held only while there is a reader. If
  moreover the file is in non-blocking mode and no \<^const>\<open>asyncopenf\<close> of the sequence
  fails, the system calls made are exactly those the specification prescribes: an open
  at every first concurrent reader, a close whenever the last concurrent reader
  finishes, and a handle is held exactly while there is a reader.

  Destroying a READ context whose completion is eventually observed returns, with the
  counter of the issuing \<^verbatim>\<open>FileAccess\<close> decreased by exactly one.
\<close>

theorem async_reader_refcount:
  "(let fa1 = fa\<lparr>numAsyncReads := numAsyncReads fa + 1\<rparr>;
        opening = (nonblocking_localname fa \<noteq> [] \<and> \<not> isAsyncOpened fa
                   \<and> sysstat os fa1 = Some (mtime fa, fsize fa))
    in numAsyncReads (snd (asyncopenf os fa)) = numAsyncReads fa + 1
       \<and> syscalls (snd (asyncopenf os fa)) =
           (if opening then syscalls fa @ [SYSOPEN True] else syscalls fa)
       \<and> isAsyncOpened (snd (asyncopenf os fa)) =
           (isAsyncOpened fa \<or> (opening \<and> sysopen os True fa1))
       \<and> fst (asyncopenf os fa) =
           (nonblocking_localname fa = [] \<or> isAsyncOpened fa \<or> (opening \<and> sysopen os True fa1))
       \<and> (nonblocking_localname fa \<noteq> [] \<and> \<not> isAsyncOpened fa
            \<and> sysstat os fa1 = Some (curr_mtime, curr_size)
            \<and> (curr_mtime \<noteq> mtime fa \<or> curr_size \<noteq> fsize fa) \<longrightarrow>
            asyncopenf os fa =
              (False, fa1\<lparr>mtime := curr_mtime, fsize := curr_size, retry := False\<rparr>)))
   \<and> numAsyncReads (asyncclosef fa) = numAsyncReads fa - 1
   \<and> syscalls (asyncclosef fa) =
       (if isAsyncOpened fa \<and> numAsyncReads fa - 1 = 0 then syscalls fa @ [SYSCLOSE]
        else syscalls fa)
   \<and> isAsyncOpened (asyncclosef fa) = (isAsyncOpened fa \<and> numAsyncReads fa - 1 \<noteq> 0)
   \<and> (numAsyncReads fa = 0 \<and> \<not> isAsyncOpened fa \<and> readers 0 cs = Some n
        \<and> length cs < 2 ^ 31 \<longrightarrow>
        numAsyncReads (run_calls cs fa) = of_nat n
        \<and> (isAsyncOpened (run_calls cs fa) \<longrightarrow> 0 < n)
        \<and> (nonblocking_localname fa \<noteq> [] \<and> none_failed cs fa \<longrightarrow>
             syscalls (run_calls cs fa) = syscalls fa @ refcount_trace 0 cs
             \<and> isAsyncOpened (run_calls cs fa) = (0 < n)))
   \<and> ((\<forall>c. op (wait c) = op c) \<and> finished ((wait ^^ m) ctx) \<and> op ctx = READ \<longrightarrow>
        (\<exists>fa'. AsyncIOContext_destructor wait ctx fa = Some fa'
               \<and> numAsyncReads fa' = numAsyncReads fa - 1))"
proof -
  have seq: "numAsyncReads fa = 0 \<and> \<not> isAsyncOpened fa \<and> readers 0 cs = Some n
        \<and> length cs < 2 ^ 31 \<longrightarrow>
        numAsyncReads (run_calls cs fa) = of_nat n
        \<and> (isAsyncOpened (run_calls cs fa) \<longrightarrow> 0 < n)
        \<and> (nonblocking_localname fa \<noteq> [] \<and> none_failed cs fa \<longrightarrow>
             syscalls (run_calls cs fa) = syscalls fa @ refcount_trace 0 cs
             \<and> isAsyncOpened (run_calls cs fa) = (0 < n))"
  proof (intro impI)
    assume h: "numAsyncReads fa = 0 \<and> \<not> isAsyncOpened fa \<and> readers 0 cs = Some n
        \<and> length cs < 2 ^ 31"
    then have a: "numAsyncReads fa = 0" "\<not> isAsyncOpened fa" "readers 0 cs = Some n"
      "length cs < 2 ^ 31" by simp_all
    have 1: "numAsyncReads fa = of_nat 0" using a(1) by simp
    have 2: "isAsyncOpened fa \<longrightarrow> 0 < (0::nat)" using a(2) by simp
    have eq2: "isAsyncOpened fa = (0 < (0::nat))" using a(2) by simp
    have 4: "0 + length cs < 2 ^ 31" using a(4) by (simp only: add_0)
    note b = count_zero_iff
    have c: "numAsyncReads (run_calls cs fa) = of_nat n
        \<and> (isAsyncOpened (run_calls cs fa) \<longrightarrow> 0 < n)"
      by (rule run_calls_count [OF b 1 2 a(3) 4])
    have t: "nonblocking_localname fa \<noteq> [] \<and> none_failed cs fa \<longrightarrow>
             syscalls (run_calls cs fa) = syscalls fa @ refcount_trace 0 cs
             \<and> isAsyncOpened (run_calls cs fa) = (0 < n)"
    proof
      assume "nonblocking_localname fa \<noteq> [] \<and> none_failed cs fa"
      then have h1: "nonblocking_localname fa \<noteq> []" and h2: "none_failed cs fa" by simp_all
      show "syscalls (run_calls cs fa) = syscalls fa @ refcount_trace 0 cs
             \<and> isAsyncOpened (run_calls cs fa) = (0 < n)"
        by (rule run_calls_trace [OF b 1 eq2 a(3) 4 h1 h2])
    qed
    from c t show "numAsyncReads (run_calls cs fa) = of_nat n
        \<and> (isAsyncOpened (run_calls cs fa) \<longrightarrow> 0 < n)
        \<and> (nonblocking_localname fa \<noteq> [] \<and> none_failed cs fa \<longrightarrow>
             syscalls (run_calls cs fa) = syscalls fa @ refcount_trace 0 cs
             \<and> isAsyncOpened (run_calls cs fa) = (0 < n))"
      by (intro conjI) (erule conjunct1, erule conjunct2, assumption)
  qed
  have des: "(\<forall>c. op (wait c) = op c) \<and> finished ((wait ^^ m) ctx) \<and> op ctx = READ \<longrightarrow>
        (\<exists>fa'. AsyncIOContext_destructor wait ctx fa = Some fa'
               \<and> numAsyncReads fa' = numAsyncReads fa - 1)"
    using destructor_count [of wait m ctx fa] by simp
  have opn: "(let fa1 = fa\<lparr>numAsyncReads := numAsyncReads fa + 1\<rparr>;
        opening = (nonblocking_localname fa \<noteq> [] \<and> \<not> isAsyncOpened fa
                   \<and> sysstat os fa1 = Some (mtime fa, fsize fa))
    in numAsyncReads (snd (asyncopenf os fa)) = numAsyncReads fa + 1
       \<and> syscalls (snd (asyncopenf os fa)) =
           (if opening then syscalls fa @ [SYSOPEN True] else syscalls fa)
       \<and> isAsyncOpened (snd (asyncopenf os fa)) =
           (isAsyncOpened fa \<or> (opening \<and> sysopen os True fa1))
       \<and> fst (asyncopenf os fa) =
           (nonblocking_localname fa = [] \<or> isAsyncOpened fa \<or> (opening \<and> sysopen os True fa1))
       \<and> (nonblocking_localname fa \<noteq> [] \<and> \<not> isAsyncOpened fa
            \<and> sysstat os fa1 = Some (curr_mtime, curr_size)
            \<and> (curr_mtime \<noteq> mtime fa \<or> curr_size \<noteq> fsize fa) \<longrightarrow>
            asyncopenf os fa =
              (False, fa1\<lparr>mtime := curr_mtime, fsize := curr_size, retry := False\<rparr>)))"
    using asyncopenf_count [of os fa] asyncopenf_syscalls [of os fa]
      asyncopenf_flag [of os fa] asyncopenf_result [of os fa] asyncopenf_stale [of fa os curr_mtime curr_size]
    by (simp add: Let_def)
  note c1 = asyncclosef_count [of fa] and c2 = asyncclosef_syscalls [of fa]
    and c3 = asyncclosef_flag [of fa]
  show ?thesis
    by (intro conjI) (rule opn, rule c1, rule c2, rule c3, rule seq, rule des)
qed

text \<open>
  A file opened with \<^const>\<open>asyncfopen\<close>, then two concurrent readers that both finish: the
  handle is opened once, by the first, and closed once, by the last. A single
  \<^const>\<open>asyncfread\<close> on the same file and the destruction of its context leave no reader.
  A reader that finds the size changed from 0 to 1 fails and caches the new size.
\<close>

theorem async_reader_refcount_witness:
  "syscalls (run_calls [ASYNCOPENF (stat_gives 0 0), ASYNCOPENF (stat_gives 0 0),
                        ASYNCCLOSEF, ASYNCCLOSEF]
       (snd (asyncfopen (stat_gives 0 0) ''f'' fresh_fa))) = [SYSOPEN True, SYSCLOSE]
   \<and> (\<exists>fa'. AsyncIOContext_destructor id
               (fst (asyncfread (stat_gives 0 0) 4 0 0 (snd (asyncfopen (stat_gives 0 0) ''f'' fresh_fa))))
               (snd (asyncfread (stat_gives 0 0) 4 0 0 (snd (asyncfopen (stat_gives 0 0) ''f'' fresh_fa))))
             = Some fa'
            \<and> numAsyncReads fa' = 0)
   \<and> \<not> fst (asyncopenf (stat_gives 0 1) (snd (asyncfopen (stat_gives 0 0) ''f'' fresh_fa)))
   \<and> fsize (snd (asyncopenf (stat_gives 0 1) (snd (asyncfopen (stat_gives 0 0) ''f'' fresh_fa)))) = 1"
proof -
  let ?fa = "fresh_fa\<lparr>nonblocking_localname := ''f''\<rparr>"
  let ?cs = "[ASYNCOPENF (stat_gives 0 0), ASYNCOPENF (stat_gives 0 0), ASYNCCLOSEF, ASYNCCLOSEF]"
  let ?ctx = "fst (asyncfread (stat_gives 0 0) 4 0 0 ?fa)"
  let ?fa1 = "snd (asyncfread (stat_gives 0 0) 4 0 0 ?fa)"
  have f: "snd (asyncfopen (stat_gives 0 0) ''f'' fresh_fa) = ?fa"
    by (simp add: asyncfopen_def updatelocalname_def stat_gives_def fresh_fa_def Let_def)
  have h: "numAsyncReads ?fa = 0 \<and> \<not> isAsyncOpened ?fa \<and> readers 0 ?cs = Some 0
        \<and> length ?cs < 2 ^ 31"
    by (simp add: fresh_fa_def)
  have g: "nonblocking_localname ?fa \<noteq> [] \<and> none_failed ?cs ?fa"
    by (simp add: asyncopenf_def asyncclosef_def stat_gives_def fresh_fa_def)
  have a: "syscalls (run_calls ?cs ?fa) = [SYSOPEN True, SYSCLOSE]"
    using async_reader_refcount [of ?fa "stat_gives 0 0" _ _ ?cs 0] h g
    by (simp add: fresh_fa_def)
  have c: "(\<forall>c. op (id c) = op c) \<and> finished ((id ^^ 0) ?ctx) \<and> op ?ctx = READ"
    by (simp add: asyncfread_def asyncopenf_def asyncsysread_def call_userCallback_def
        newasynccontext_def stat_gives_def fresh_fa_def Let_def)
  have n: "numAsyncReads ?fa1 = 1"
    by (simp add: asyncfread_def asyncopenf_def stat_gives_def fresh_fa_def Let_def)
  have b: "\<exists>fa'. AsyncIOContext_destructor id ?ctx ?fa1 = Some fa' \<and> numAsyncReads fa' = 0"
    using async_reader_refcount [of ?fa1 _ _ _ _ _ id 0 ?ctx] c n by simp
  have st: "nonblocking_localname ?fa \<noteq> [] \<and> \<not> isAsyncOpened ?fa
        \<and> sysstat (stat_gives 0 1) (?fa\<lparr>numAsyncReads := numAsyncReads ?fa + 1\<rparr>) = Some (0, 1)
        \<and> (0 \<noteq> mtime ?fa \<or> 1 \<noteq> fsize ?fa)"
    by (simp add: fresh_fa_def stat_gives_def)
  have d: "\<not> fst (asyncopenf (stat_gives 0 1) ?fa)
        \<and> fsize (snd (asyncopenf (stat_gives 0 1) ?fa)) = 1"
    using async_reader_refcount [of ?fa "stat_gives 0 1" 0 1] st by (simp add: Let_def)
  show ?thesis by (simp only: f a b d simp_thms)
qed

text \<open>
  Claim C5 as stated fails: the open is gated by the flag \<^const>\<open>isAsyncOpened\<close>, not by the
  count. After a first reader whose stat failed (count 1, no handle), a second reader
  takes the handle while the count goes from 1 to 2.
\<close>

theorem async_reader_refcount_counterexample:
  "numAsyncReads (snd (asyncopenf stat_fails (fresh_fa\<lparr>nonblocking_localname := ''f''\<rparr>))) = 1
   \<and> syscalls (snd (asyncopenf stat_fails (fresh_fa\<lparr>nonblocking_localname := ''f''\<rparr>))) = []
   \<and> numAsyncReads (snd (asyncopenf (stat_gives 0 0)
        (snd (asyncopenf stat_fails (fresh_fa\<lparr>nonblocking_localname := ''f''\<rparr>))))) = 2
   \<and> syscalls (snd (asyncopenf (stat_gives 0 0)
        (snd (asyncopenf stat_fails (fresh_fa\<lparr>nonblocking_localname := ''f''\<rparr>))))) = [SYSOPEN True]"
  by (simp add: asyncopenf_def fresh_fa_def stat_fails_def stat_gives_def)

subsection \<open>Synchronous completion of the base implementation\<close>

lemma asyncsys_completed:
  "userCallback ctx \<noteq> None \<Longrightarrow>
   finished (asyncsysopen ctx) \<and> failed (asyncsysopen ctx)
   \<and> callbacks (asyncsysopen ctx) = callbacks ctx @ [True]
   \<and> finished (asyncsysread ctx) \<and> failed (asyncsysread ctx)
   \<and> callbacks (asyncsysread ctx) = callbacks ctx @ [True]
   \<and> finished (asyncsyswrite ctx) \<and> failed (asyncsyswrite ctx)
   \<and> callbacks (asyncsyswrite ctx) = callbacks ctx @ [True]"
  by (simp add: asyncsysopen_def asyncsysread_def asyncsyswrite_def call_userCallback_def)

lemma asyncfread_completed:
  "finished (fst (asyncfread os l pd p fa)) \<and> failed (fst (asyncfread os l pd p fa))
   \<and> callbacks (fst (asyncfread os l pd p fa)) = [True]"
proof (cases "asyncopenf os fa")
  case (Pair opened fa')
  then show ?thesis
    using asyncsys_completed [of "newasynccontext\<lparr>op := READ, pos := p, len := l, pad := pd,
        userCallback := Some asyncopfinished\<rparr>"]
    by (simp add: asyncfread_def call_userCallback_def newasynccontext_def Let_def)
qed

text \<open>
  Claim C6 (as amended). Every context returned by the base implementation is already
  completed: its completion flag is set and its callback has been invoked exactly once,
  with the completion flag set at that moment. The failure flag is set for
  \<^const>\<open>asyncfopen_rw\<close>, \<^const>\<open>asyncfread\<close> and \<^const>\<open>asyncfwrite\<close>; for \<^const>\<open>asyncfopen\<close> it is set
  exactly when the stat fails.
\<close>

theorem async_completed_synchronously:
  "finished (fst (asyncfopen_rw f read write p fa))
   \<and> failed (fst (asyncfopen_rw f read write p fa))
   \<and> callbacks (fst (asyncfopen_rw f read write p fa)) = [True]
   \<and> finished (fst (asyncfread os l pd p fa))
   \<and> failed (fst (asyncfread os l pd p fa))
   \<and> callbacks (fst (asyncfread os l pd p fa)) = [True]
   \<and> finished (fst (asyncfwrite l p fa))
   \<and> failed (fst (asyncfwrite l p fa))
   \<and> callbacks (fst (asyncfwrite l p fa)) = [True]
   \<and> finished (fst (asyncfopen os f fa))
   \<and> callbacks (fst (asyncfopen os f fa)) = [True]
   \<and> failed (fst (asyncfopen os f fa))
       = (sysstat os (fa\<lparr>nonblocking_localname := f\<rparr>) = None)"
proof -
  have 1: "finished (fst (asyncfopen_rw f read write p fa))
     \<and> failed (fst (asyncfopen_rw f read write p fa))
     \<and> callbacks (fst (asyncfopen_rw f read write p fa)) = [True]"
    by (simp add: asyncfopen_rw_def asyncsysopen_def call_userCallback_def newasynccontext_def)
  have 2: "finished (fst (asyncfwrite l p fa)) \<and> failed (fst (asyncfwrite l p fa))
     \<and> callbacks (fst (asyncfwrite l p fa)) = [True]"
    by (simp add: asyncfwrite_def asyncsyswrite_def call_userCallback_def newasynccontext_def)
  have 3: "finished (fst (asyncfopen os f fa)) \<and> callbacks (fst (asyncfopen os f fa)) = [True]
     \<and> failed (fst (asyncfopen os f fa)) = (sysstat os (fa\<lparr>nonblocking_localname := f\<rparr>) = None)"
    by (simp add: asyncfopen_def updatelocalname_def call_userCallback_def newasynccontext_def Let_def)
  from 1 2 3 asyncfread_completed [of os l pd p fa] show ?thesis by simp
qed

text \<open>
  Claim C6 as stated fails for \<^const>\<open>asyncfopen\<close>: when the stat succeeds, the returned
  context is completed without failure.
\<close>

theorem async_completed_synchronously_counterexample:
  "finished (fst (asyncfopen (stat_gives 5 10) ''f'' fresh_fa))
   \<and> \<not> failed (fst (asyncfopen (stat_gives 5 10) ''f'' fresh_fa))"
  by (simp add: asyncfopen_def updatelocalname_def call_userCallback_def newasynccontext_def
      stat_gives_def fresh_fa_def Let_def)

section \<open>DirNotify: proofs\<close>

lemma timestamp_same: "timestamp e = t \<Longrightarrow> e\<lparr>timestamp := t\<rparr> = e"
  by auto

lemma notifyq_same: "notifyq dn q = es \<Longrightarrow> dn\<lparr>notifyq := (notifyq dn)(q := es)\<rparr> = dn"
  by auto

lemma tail_cases:
  "(length es \<noteq> 0 \<and> localnode (last es) = l \<and> path (last es) = p)
   \<longleftrightarrow> (\<exists>fs e. es = fs @ [e] \<and> localnode e = l \<and> path e = p)"
  by (cases es rule: rev_cases) auto

lemma dedup_refreshes_tail:
  assumes "q = DIREVENTS \<or> q = EXTRA"
    and "notifyq dn q = es @ [e]" and "localnode e = l" and "path e = p"
  shows "notify env q l p immediate dn =
     Inr (dn\<lparr>notifyq := (notifyq dn)
            (q := es @ [e\<lparr>timestamp := (if timestamp e = 0 then 0
                                           else if immediate then 0 else ds env)\<rparr>])\<rparr>)"
proof (cases "timestamp e = 0")
  case True
  have "dn\<lparr>notifyq := (notifyq dn)(q := es @ [e\<lparr>timestamp := 0\<rparr>])\<rparr> = dn"
    using assms(2) True by (simp add: timestamp_same notifyq_same)
  with True assms show ?thesis by (simp add: notify_def)
next
  case False
  with assms show ?thesis by (simp add: notify_def)
qed

text \<open>
  Claim C2 (as amended). When \<^const>\<open>notify\<close> is called on the queue \<^const>\<open>DIREVENTS\<close> or
  \<^const>\<open>EXTRA\<close> and the last entry of that queue is for the same node and path, no entry
  is added and nothing else changes; the last entry's timestamp becomes 0 for an
  immediate call and the current clock tick otherwise, except that a timestamp that is
  already 0 stays 0.
\<close>

theorem notify_dedup:
  assumes "q = DIREVENTS \<or> q = EXTRA"
    and "notifyq dn q = es @ [e]" and "localnode e = l" and "path e = p"
  shows "notify env q l p immediate dn =
     Inr (dn\<lparr>notifyq := (notifyq dn)
            (q := es @ [e\<lparr>timestamp := (if timestamp e = 0 then 0
                                           else if immediate then 0 else ds env)\<rparr>])\<rparr>)"
  using assms by (rule dedup_refreshes_tail)

text \<open>
  Two successive calls for the same node and path on an empty queue: a non-immediate
  call at tick 7 followed by a non-immediate call at tick 9 leaves one entry with
  timestamp 9; followed by an immediate call instead, it leaves one entry with timestamp 0.
\<close>

theorem notify_dedup_witness:
  "notifyq (projr (notify (deleted_env 9) EXTRA (Some 1) ''a'' False
       (projr (notify (deleted_env 7) EXTRA (Some 1) ''a'' False scanned_watcher)))) EXTRA
     = [\<lparr>timestamp = 9, localnode = Some 1, path = ''a''\<rparr>]
   \<and> notifyq (projr (notify (deleted_env 9) EXTRA (Some 1) ''a'' True
       (projr (notify (deleted_env 7) EXTRA (Some 1) ''a'' False scanned_watcher)))) EXTRA
     = [\<lparr>timestamp = 0, localnode = Some 1, path = ''a''\<rparr>]"
proof -
  let ?e = "\<lparr>timestamp = 7, localnode = Some 1, path = ''a''\<rparr>"
  let ?dn = "\<lparr>notifyq = (\<lambda>q. [])(EXTRA := [?e]),
             sync = Some \<lparr>initializing = False, syncactivity = True\<rparr>\<rparr>"
  have first: "notify (deleted_env 7) EXTRA (Some 1) ''a'' False scanned_watcher = Inr ?dn"
    by (simp add: notify_def deleted_env_def scanned_watcher_def DirNotify_new_def)
  have q: "EXTRA = DIREVENTS \<or> EXTRA = EXTRA" by simp
  have tail: "notifyq ?dn EXTRA = [] @ [?e]" "localnode ?e = Some 1" "path ?e = ''a''"
    by simp_all
  have d: "ds (deleted_env 9) = 9" by (simp add: deleted_env_def)
  have a: "notifyq (projr (notify (deleted_env 9) EXTRA (Some 1) ''a'' False ?dn)) EXTRA
           = [\<lparr>timestamp = 9, localnode = Some 1, path = ''a''\<rparr>]"
    using notify_dedup [OF q tail, of "deleted_env 9" False] d by simp
  have b: "notifyq (projr (notify (deleted_env 9) EXTRA (Some 1) ''a'' True ?dn)) EXTRA
           = [\<lparr>timestamp = 0, localnode = Some 1, path = ''a''\<rparr>]"
    using notify_dedup [OF q tail, of "deleted_env 9" True] d by simp
  show ?thesis by (simp only: first sum.sel a b simp_thms)
qed

text \<open>
  Claim C2 as stated fails: the timestamp is only written when it is non-zero. An entry
  enqueued by an immediate call at clock tick 3 keeps timestamp 0 when a non-immediate
  call for the same node and path follows at clock tick 5: it is not refreshed to 5.
\<close>

theorem notify_dedup_counterexample:
  "notifyq (projr (notify (deleted_env 5) EXTRA (Some 1) ''a'' False
       (projr (notify (deleted_env 3) EXTRA (Some 1) ''a'' True scanned_watcher)))) EXTRA
     = [\<lparr>timestamp = 0, localnode = Some 1, path = ''a''\<rparr>]"
  by (simp add: notify_def deleted_env_def scanned_watcher_def DirNotify_new_def)

subsection \<open>Self-notification suppression\<close>

lemma notify_not_repeated:
  assumes "notifyq dn q = [] \<or> localnode (last (notifyq dn q)) \<noteq> l \<or> path (last (notifyq dn q)) \<noteq> p"
    and "sync dn = Some s"
  shows "notify env q l p False dn =
     (if \<not> initializing s \<and> q = DIREVENTS \<and> self_notification env l p then Inr dn
      else Inr (dn\<lparr>sync := (if q = RETRY then Some s else Some (s\<lparr>syncactivity := True\<rparr>)),
                 notifyq := (notifyq dn)
                   (q := notifyq dn q @ [\<lparr>timestamp = ds env, localnode = l, path = p\<rparr>])\<rparr>))"
proof -
  have s: "dn\<lparr>sync := Some s\<rparr> = dn" using assms(2) by auto
  show ?thesis
  proof (cases q)
    case DIREVENTS
    with assms show ?thesis by (auto simp: notify_def)
  next
    case EXTRA
    with assms show ?thesis by (auto simp: notify_def)
  next
    case RETRY
    with assms s show ?thesis by (auto simp: notify_def)
  qed
qed

lemma enqueued_differs:
  "dn\<lparr>sync := x, notifyq := (notifyq dn)(q := notifyq dn q @ [e])\<rparr> \<noteq> dn"
proof
  assume "dn\<lparr>sync := x, notifyq := (notifyq dn)(q := notifyq dn q @ [e])\<rparr> = dn"
  then have "notifyq (dn\<lparr>sync := x, notifyq := (notifyq dn)(q := notifyq dn q @ [e])\<rparr>) q = notifyq dn q"
    by simp
  then show False by simp
qed

lemma self_notification_iff:
  assumes "fopen_path env (tmppath env l p) = (success, fa)"
  shows "self_notification env l p \<longleftrightarrow>
     (localnodebypath env l p = None \<and> \<not> success \<and> \<not> retry fa)
     \<or> (\<exists>ll n. localnodebypath env l p = Some ll \<and> success
           \<and> ln_node ll = Some n \<and> node_localnode n = Some (ln_addr ll)
           \<and> attrs n CHR ''n'' = Some (ln_name ll)
           \<and> fsidvalid fa \<and> fsid fa = ln_fsid ll \<and> ftype fa = ln_type ll
           \<and> (ln_type ll = FILENODE \<longrightarrow>
                fingerprint_equal env ll n \<and> ln_mtime ll = mtime fa \<and> ln_size ll = fsize fa))"
proof (cases "localnodebypath env l p")
  case None
  with assms show ?thesis by (simp add: self_notification_def)
next
  case ll: (Some ll)
  show ?thesis
  proof (cases "ln_node ll")
    case None
    with assms ll show ?thesis by (simp add: self_notification_def)
  next
    case n: (Some n)
    show ?thesis
    proof (cases "attrs n CHR ''n''")
      case None
      with assms ll n show ?thesis by (simp add: self_notification_def)
    next
      case (Some v)
      with assms ll n show ?thesis by (auto simp: self_notification_def)
    qed
  qed
qed

text \<open>
  Claim C3 (as amended). Consider a non-immediate call that the dedup rule does not
  merge, on a watcher whose sync has completed its initial scan. The event is dropped
  (the watcher is left as it was) exactly when the queue is \<^const>\<open>DIREVENTS\<close> and either
  (a) no local node is found and the open fails without the retry flag, or (b) a local
  node is found, the open succeeds, the node's remote node points back to it and carries
  its name, the opened entry has a valid file system id equal to the node's and the
  node's type, and, for a file node, the fingerprint, modification time and size are
  unchanged. In every other case the event is appended to the queue.
\<close>

theorem notify_self_suppression:
  assumes "notifyq dn q = [] \<or> localnode (last (notifyq dn q)) \<noteq> l \<or> path (last (notifyq dn q)) \<noteq> p"
    and "sync dn = Some s" and "\<not> initializing s"
    and "fopen_path env (tmppath env l p) = (success, fa)"
  shows "(notify env q l p False dn = Inr dn \<longleftrightarrow>
            q = DIREVENTS
            \<and> ((localnodebypath env l p = None \<and> \<not> success \<and> \<not> retry fa)
               \<or> (\<exists>ll n. localnodebypath env l p = Some ll \<and> success
                     \<and> ln_node ll = Some n \<and> node_localnode n = Some (ln_addr ll)
                     \<and> attrs n CHR ''n'' = Some (ln_name ll)
                     \<and> fsidvalid fa \<and> fsid fa = ln_fsid ll \<and> ftype fa = ln_type ll
                     \<and> (ln_type ll = FILENODE \<longrightarrow>
                          fingerprint_equal env ll n
                          \<and> ln_mtime ll = mtime fa \<and> ln_size ll = fsize fa))))
       \<and> (notify env q l p False dn \<noteq> Inr dn \<longrightarrow>
            (\<exists>dn'. notify env q l p False dn = Inr dn'
                  \<and> notifyq dn' q = notifyq dn q @ [\<lparr>timestamp = ds env, localnode = l, path = p\<rparr>]))"
proof -
  note n = notify_not_repeated [OF assms(1) assms(2), of env]
  note i = self_notification_iff [OF assms(4)]
  have a: "notify env q l p False dn = Inr dn \<longleftrightarrow> q = DIREVENTS \<and> self_notification env l p"
    using n assms(3) by (simp add: enqueued_differs split: if_splits)
  have b: "notify env q l p False dn \<noteq> Inr dn \<longrightarrow>
            (\<exists>dn'. notify env q l p False dn = Inr dn'
                  \<and> notifyq dn' q = notifyq dn q @ [\<lparr>timestamp = ds env, localnode = l, path = p\<rparr>])"
    using n by (simp split: if_splits)
  from a b i show ?thesis by simp
qed

text \<open>A synced file whose on-disk state is what the engine knows is dropped; the same
  file with a changed modification time is enqueued.\<close>

theorem notify_self_suppression_witness:
  "notify (synced_env FILENODE FILENODE 1) DIREVENTS None ''a'' False scanned_watcher
     = Inr scanned_watcher
   \<and> notify (synced_env FILENODE FILENODE 3) DIREVENTS None ''a'' False scanned_watcher
     \<noteq> Inr scanned_watcher"
proof -
  have h: "notifyq scanned_watcher DIREVENTS = []
       \<or> localnode (last (notifyq scanned_watcher DIREVENTS)) \<noteq> None
       \<or> path (last (notifyq scanned_watcher DIREVENTS)) \<noteq> ''a''"
    by (simp add: scanned_watcher_def DirNotify_new_def)
  have s: "sync scanned_watcher = Some \<lparr>initializing = False, syncactivity = False\<rparr>"
    by (simp add: scanned_watcher_def DirNotify_new_def)
  have i: "\<not> initializing \<lparr>initializing = False, syncactivity = False\<rparr>" by simp
  have f1: "fopen_path (synced_env FILENODE FILENODE 1) (tmppath (synced_env FILENODE FILENODE 1) None ''a'')
      = (True, fresh_fa\<lparr>fsidvalid := True, fsid := 7, ftype := FILENODE, mtime := 1, fsize := 2\<rparr>)"
    by (simp add: synced_env_def)
  have f3: "fopen_path (synced_env FILENODE FILENODE 3) (tmppath (synced_env FILENODE FILENODE 3) None ''a'')
      = (True, fresh_fa\<lparr>fsidvalid := True, fsid := 7, ftype := FILENODE, mtime := 3, fsize := 2\<rparr>)"
    by (simp add: synced_env_def)
  show ?thesis
    using notify_self_suppression [OF h s i f1] notify_self_suppression [OF h s i f3]
    by (simp add: synced_env_def tracked_def)
qed

text \<open>
  Claim C3 as stated fails in three ways. On the queue \<^const>\<open>EXTRA\<close> a consistently
  deleted entry is enqueued, not dropped. A synced folder whose modification time on disk
  differs from the cached one is dropped, not enqueued. A synced file that is found as a
  folder on disk, all listed values unchanged, is enqueued, not dropped.
\<close>

theorem notify_self_suppression_counterexample:
  "notify (deleted_env 5) EXTRA None ''a'' False scanned_watcher \<noteq> Inr scanned_watcher
   \<and> notify (synced_env FOLDERNODE FOLDERNODE 3) DIREVENTS None ''a'' False scanned_watcher
     = Inr scanned_watcher
   \<and> notify (synced_env FILENODE FOLDERNODE 1) DIREVENTS None ''a'' False scanned_watcher
     \<noteq> Inr scanned_watcher"
proof -
  have 1: "notify (deleted_env 5) EXTRA None ''a'' False scanned_watcher \<noteq> Inr scanned_watcher"
  proof
    assume "notify (deleted_env 5) EXTRA None ''a'' False scanned_watcher = Inr scanned_watcher"
    then have "notifyq (projr (notify (deleted_env 5) EXTRA None ''a'' False scanned_watcher)) EXTRA
               = notifyq scanned_watcher EXTRA" by simp
    then show False
      by (simp add: notify_def scanned_watcher_def DirNotify_new_def)
  qed
  have 2: "notify (synced_env FOLDERNODE FOLDERNODE 3) DIREVENTS None ''a'' False scanned_watcher
           = Inr scanned_watcher"
    by (simp add: notify_def self_notification_def synced_env_def tracked_def
        scanned_watcher_def DirNotify_new_def tmppath_def separatorAppend_def fresh_fa_def)
  have 3: "notify (synced_env FILENODE FOLDERNODE 1) DIREVENTS None ''a'' False scanned_watcher
           \<noteq> Inr scanned_watcher"
  proof
    assume "notify (synced_env FILENODE FOLDERNODE 1) DIREVENTS None ''a'' False scanned_watcher
            = Inr scanned_watcher"
    then have "notifyq (projr (notify (synced_env FILENODE FOLDERNODE 1) DIREVENTS None ''a'' False
                 scanned_watcher)) DIREVENTS = notifyq scanned_watcher DIREVENTS" by simp
    then show False
      by (simp add: notify_def self_notification_def synced_env_def tracked_def
          scanned_watcher_def DirNotify_new_def tmppath_def separatorAppend_def fresh_fa_def)
  qed
  from 1 2 3 show ?thesis by simp
qed

text \<open>
  Claim C10. On a watcher attached to a sync, a non-immediate call on a queue other than
  \<^const>\<open>DIREVENTS\<close> is never dropped: on \<^const>\<open>EXTRA\<close> with a last entry for the same node and
  path it is merged into that entry, and in every other case a new entry is appended.
\<close>

theorem notify_other_queues_not_dropped:
  assumes "q \<noteq> DIREVENTS" and "sync dn = Some s"
  shows "\<exists>dn'. notify env q l p False dn = Inr dn'
     \<and> (if q = EXTRA \<and> (\<exists>es e. notifyq dn q = es @ [e] \<and> localnode e = l \<and> path e = p)
        then \<exists>es e. notifyq dn q = es @ [e] \<and> localnode e = l \<and> path e = p
               \<and> notifyq dn' q = es @ [e\<lparr>timestamp := (if timestamp e = 0 then 0 else ds env)\<rparr>]
        else notifyq dn' q = notifyq dn q @ [\<lparr>timestamp = ds env, localnode = l, path = p\<rparr>])"
proof (cases "q = EXTRA \<and> (\<exists>es e. notifyq dn q = es @ [e] \<and> localnode e = l \<and> path e = p)")
  case True
  then obtain es e where t: "notifyq dn q = es @ [e]" "localnode e = l" "path e = p" by blast
  from True have "q = DIREVENTS \<or> q = EXTRA" by simp
  from dedup_refreshes_tail [OF this t, of env False] True t show ?thesis by auto
next
  case False
  show ?thesis
  proof (cases "q = EXTRA")
    case EXTRA: True
    with False have "\<not> (length (notifyq dn q) \<noteq> 0 \<and> localnode (last (notifyq dn q)) = l
        \<and> path (last (notifyq dn q)) = p)"
      by (simp only: tail_cases) simp
    then have "notifyq dn q = [] \<or> localnode (last (notifyq dn q)) \<noteq> l
        \<or> path (last (notifyq dn q)) \<noteq> p" by simp
    from notify_not_repeated [OF this assms(2), of env] assms(1) False show ?thesis by simp
  next
    case notEXTRA: False
    with assms(1) have "q = RETRY" by (cases q) simp_all
    with False show ?thesis by (simp add: notify_def)
  qed
qed

text \<open>A consistently deleted entry reported on the queue \<^const>\<open>EXTRA\<close> is appended.\<close>

theorem notify_other_queues_not_dropped_witness:
  "\<exists>dn'. notify (deleted_env 5) EXTRA None ''a'' False scanned_watcher = Inr dn'
     \<and> notifyq dn' EXTRA = [\<lparr>timestamp = 5, localnode = None, path = ''a''\<rparr>]"
proof -
  have q: "EXTRA \<noteq> DIREVENTS" by simp
  have s: "sync scanned_watcher = Some \<lparr>initializing = False, syncactivity = False\<rparr>"
    by (simp add: scanned_watcher_def DirNotify_new_def)
  show ?thesis
    using notify_other_queues_not_dropped [OF q s, of "deleted_env 5" None "''a''"]
    by (simp add: scanned_watcher_def DirNotify_new_def deleted_env_def)
qed

end
